theory Spec2Isabelle
  imports Main "HOL-Library.AList"
begin

section \<open>JavaScript values used by the reaction manager\<close>

text \<open>
  A JavaScript string is a sequence of UTF-16 code units.  The code units are modelled as
  natural numbers below \<open>65536\<close>; \<open>js\<close> turns an ASCII literal into such a sequence.
\<close>

type_synonym jstring = "nat list"

definition js :: "string \<Rightarrow> jstring" where
  "js s = map of_char s"

text \<open>The emoji U+1F44D (thumbs up) is the surrogate pair D83D DC4D.\<close>

definition thumbsUp :: jstring where
  "thumbsUp = [0xD83D, 0xDC4D]"

definition heart :: jstring where
  "heart = [0x2764, 0xFE0F]"

text \<open>
  A JavaScript \<open>Map\<close> keeps its entries in insertion order and holds each key once.
  \<open>Map.prototype.set\<close> on a key that is present replaces the value in place, on a new key
  it appends; \<open>Map.prototype.delete\<close> removes the entry.
\<close>

type_synonym ('k, 'v) jsmap = "('k \<times> 'v) list"

definition map_get :: "('k, 'v) jsmap \<Rightarrow> 'k \<Rightarrow> 'v option" where
  "map_get m k = map_of m k"

definition map_has :: "('k, 'v) jsmap \<Rightarrow> 'k \<Rightarrow> bool" where
  "map_has m k = (map_of m k \<noteq> None)"

definition map_set :: "'k \<Rightarrow> 'v \<Rightarrow> ('k, 'v) jsmap \<Rightarrow> ('k, 'v) jsmap" where
  "map_set k v m = AList.update k v m"

definition map_delete :: "'k \<Rightarrow> ('k, 'v) jsmap \<Rightarrow> ('k, 'v) jsmap" where
  "map_delete k m = AList.delete k m"

text \<open>\<open>Map<string, Map<string, string[]>>\<close>: message identity, then emoji, then reactors.\<close>

type_synonym ReactionSet = "(jstring, jstring list) jsmap"
type_synonym MessageReactions = "(jstring, ReactionSet) jsmap"


section \<open>The local reaction store\<close>

text \<open>
  \<open>updateLocalReaction\<close> (reactions.ts, 694-711).  \<open>get(..) || new Map()\<close> and
  \<open>get(..) || []\<close> fall back only on \<open>undefined\<close>, since maps and arrays are truthy.
\<close>

definition updateLocalReaction ::
  "jstring \<Rightarrow> jstring \<Rightarrow> jstring \<Rightarrow> MessageReactions \<Rightarrow> MessageReactions" where
  "updateLocalReaction messageId emoji userId mr =
     (let reactions = (case map_get mr messageId of Some r \<Rightarrow> r | None \<Rightarrow> []);
          users = (case map_get reactions emoji of Some us \<Rightarrow> us | None \<Rightarrow> []);
          isRemoving = (userId \<in> set users);
          reactions' =
            (if isRemoving then
               (let updatedUsers = filter (\<lambda>user. user \<noteq> userId) users
                in if length updatedUsers = 0 then map_delete emoji reactions
                   else map_set emoji updatedUsers reactions)
             else map_set emoji (users @ [userId]) reactions)
      in map_set messageId reactions' mr)"

text \<open>
  The reactor list of an emoji under a message, read the way \<open>getReactionAction\<close> reads it
  (\<open>reactions?.get(emoji) || []\<close>).
\<close>

definition reactorList :: "MessageReactions \<Rightarrow> jstring \<Rightarrow> jstring \<Rightarrow> jstring list" where
  "reactorList mr messageId emoji =
     (case map_get mr messageId of
        None \<Rightarrow> []
      | Some reactions \<Rightarrow> (case map_get reactions emoji of None \<Rightarrow> [] | Some us \<Rightarrow> us))"

text \<open>A finite sequence of toggles, each a triple (messageId, emoji, userId).\<close>

fun toggles :: "(jstring \<times> jstring \<times> jstring) list \<Rightarrow> MessageReactions \<Rightarrow> MessageReactions" where
  "toggles [] mr = mr"
| "toggles ((m, e, u) # ts) mr = toggles ts (updateLocalReaction m e u mr)"

definition noEmptyEntries :: "MessageReactions \<Rightarrow> bool" where
  "noEmptyEntries mr = list_all (\<lambda>(m, r). list_all (\<lambda>(e, us). us \<noteq> []) r) mr"

definition noDuplicateUsers :: "MessageReactions \<Rightarrow> bool" where
  "noDuplicateUsers mr = list_all (\<lambda>(m, r). list_all (\<lambda>(e, us). distinct us) r) mr"


section \<open>JSON\<close>

text \<open>
  The values \<open>JSON.parse\<close> produces.  A number keeps its literal (the manager never
  computes with one).  An object is the list of its own properties in enumeration order:
  array-index keys first, ascending, then the other keys in creation order.
\<close>

datatype json = JNull | JBool bool | JNum jstring | JStr jstring
  | JArr "json list" | JObj "(jstring \<times> json) list"

definition is_digit :: "nat \<Rightarrow> bool" where
  "is_digit c = (48 \<le> c \<and> c \<le> 57)"

fun show_nat :: "nat \<Rightarrow> jstring" where
  "show_nat n = (if n < 10 then [48 + n] else show_nat (n div 10) @ [48 + n mod 10])"

definition read_nat :: "jstring \<Rightarrow> nat" where
  "read_nat s = foldl (\<lambda>a d. 10 * a + (d - 48)) 0 s"

definition array_index :: "jstring \<Rightarrow> nat option" where
  "array_index k =
     (if k \<noteq> [] \<and> list_all is_digit k \<and> show_nat (read_nat k) = k \<and> read_nat k < 4294967295
      then Some (read_nat k) else None)"

fun insert_index :: "nat \<Rightarrow> jstring \<Rightarrow> 'v \<Rightarrow> (jstring \<times> 'v) list \<Rightarrow> (jstring \<times> 'v) list" where
  "insert_index i k v [] = [(k, v)]"
| "insert_index i k v ((k', v') # ps) =
     (case array_index k' of
        Some j \<Rightarrow> if j < i then (k', v') # insert_index i k v ps else (k, v) # (k', v') # ps
      | None \<Rightarrow> (k, v) # (k', v') # ps)"

definition prop_set :: "jstring \<Rightarrow> 'v \<Rightarrow> (jstring \<times> 'v) list \<Rightarrow> (jstring \<times> 'v) list" where
  "prop_set k v ps =
     (if map_of ps k \<noteq> None then AList.update k v ps
      else case array_index k of Some i \<Rightarrow> insert_index i k v ps | None \<Rightarrow> ps @ [(k, v)])"

definition Object_fromEntries :: "(jstring \<times> 'v) list \<Rightarrow> (jstring \<times> 'v) list" where
  "Object_fromEntries es = foldl (\<lambda>obj (k, v). prop_set k v obj) [] es"

fun join :: "jstring \<Rightarrow> jstring list \<Rightarrow> jstring" where
  "join sep [] = []"
| "join sep [x] = x"
| "join sep (x # y # ys) = x @ sep @ join sep (y # ys)"

definition hex_digit :: "nat \<Rightarrow> nat" where
  "hex_digit d = (if d < 10 then 48 + d else 87 + d)"

definition unicode_escape :: "nat \<Rightarrow> jstring" where
  "unicode_escape c = [92, 117, hex_digit (c div 4096 mod 16), hex_digit (c div 256 mod 16),
                       hex_digit (c div 16 mod 16), hex_digit (c mod 16)]"

definition is_high_surrogate :: "nat \<Rightarrow> bool" where
  "is_high_surrogate c = (0xD800 \<le> c \<and> c \<le> 0xDBFF)"

definition is_low_surrogate :: "nat \<Rightarrow> bool" where
  "is_low_surrogate c = (0xDC00 \<le> c \<and> c \<le> 0xDFFF)"

definition quote_unit :: "nat \<Rightarrow> jstring" where
  "quote_unit c =
     (if c = 8 then [92, 98] else if c = 9 then [92, 116] else if c = 10 then [92, 110]
      else if c = 12 then [92, 102] else if c = 13 then [92, 114]
      else if c = 34 then [92, 34] else if c = 92 then [92, 92]
      else if c < 32 \<or> is_high_surrogate c \<or> is_low_surrogate c then unicode_escape c
      else [c])"

fun quote_units :: "jstring \<Rightarrow> jstring" where
  "quote_units [] = []"
| "quote_units [c] = quote_unit c"
| "quote_units (c # d # cs) =
     (if is_high_surrogate c \<and> is_low_surrogate d then c # d # quote_units cs
      else quote_unit c @ quote_units (d # cs))"

definition QuoteJSONString :: "jstring \<Rightarrow> jstring" where
  "QuoteJSONString s = [34] @ quote_units s @ [34]"

fun JSON_stringify :: "json \<Rightarrow> jstring" where
  "JSON_stringify JNull = js ''null''"
| "JSON_stringify (JBool b) = (if b then js ''true'' else js ''false'')"
| "JSON_stringify (JNum l) = l"
| "JSON_stringify (JStr s) = QuoteJSONString s"
| "JSON_stringify (JArr vs) = [91] @ join [44] (map JSON_stringify vs) @ [93]"
| "JSON_stringify (JObj ps) =
     [123] @ join [44] (map (\<lambda>(k, v). QuoteJSONString k @ [58] @ JSON_stringify v) ps) @ [125]"

text \<open>
  \<open>ToString\<close> of a parsed value, which \<open>JSON.parse\<close> applies to an argument that is
  not a string.  An array is the comma-separated texts of its elements, \<open>null\<close> giving
  the empty text; an object is \<open>[object Object]\<close>.  The text of a number is given for the
  integers of at most fifteen digits, which print as they were read (\<open>-0\<close> as \<open>0\<close>);
  for the other literals it is \<open>None\<close>: the shortest decimal form of a binary
  floating-point number is not modelled.
\<close>

definition Number_toString :: "jstring \<Rightarrow> jstring option" where
  "Number_toString l =
     (let digits = (case l of [] \<Rightarrow> [] | c # cs \<Rightarrow> if c = 45 then cs else l)
      in if digits \<noteq> [] \<and> list_all is_digit digits \<and> length digits \<le> 15
            \<and> (digits = [48] \<or> hd digits \<noteq> 48)
         then Some (if l = [45, 48] then [48] else l)
         else None)"

fun ToString :: "json \<Rightarrow> jstring option" where
  "ToString JNull = Some (js ''null'')"
| "ToString (JBool b) = Some (if b then js ''true'' else js ''false'')"
| "ToString (JNum l) = Number_toString l"
| "ToString (JStr s) = Some s"
| "ToString (JObj ps) = Some (js ''[object Object]'')"
| "ToString (JArr vs) =
     (let texts = map (\<lambda>v. if v = JNull then Some [] else ToString v) vs
      in if list_all (\<lambda>t. t \<noteq> None) texts then Some (join [44] (map the texts)) else None)"

definition is_ws :: "nat \<Rightarrow> bool" where
  "is_ws c = (c = 32 \<or> c = 9 \<or> c = 10 \<or> c = 13)"

definition skip_ws :: "jstring \<Rightarrow> jstring" where
  "skip_ws s = dropWhile is_ws s"

definition hex_val :: "nat \<Rightarrow> nat option" where
  "hex_val c =
     (if 48 \<le> c \<and> c \<le> 57 then Some (c - 48)
      else if 97 \<le> c \<and> c \<le> 102 then Some (c - 87)
      else if 65 \<le> c \<and> c \<le> 70 then Some (c - 55)
      else None)"

definition hex4 :: "nat \<Rightarrow> nat \<Rightarrow> nat \<Rightarrow> nat \<Rightarrow> nat option" where
  "hex4 a b c d =
     (case (hex_val a, hex_val b, hex_val c, hex_val d) of
        (Some x, Some y, Some z, Some w) \<Rightarrow> Some (4096 * x + 256 * y + 16 * z + w)
      | _ \<Rightarrow> None)"

definition unescape :: "nat \<Rightarrow> nat option" where
  "unescape e =
     (if e = 34 then Some 34 else if e = 92 then Some 92 else if e = 47 then Some 47
      else if e = 98 then Some 8 else if e = 102 then Some 12 else if e = 110 then Some 10
      else if e = 114 then Some 13 else if e = 116 then Some 9 else None)"

fun parse_string :: "jstring \<Rightarrow> (jstring \<times> jstring) option" where
  "parse_string [] = None"
| "parse_string (c # cs) =
     (if c = 34 then Some ([], cs)
      else if c = 92 then
        (case cs of
           [] \<Rightarrow> None
         | e # es \<Rightarrow>
             if e = 117 then
               (case es of
                  a # b # c' # d # r \<Rightarrow>
                    (case hex4 a b c' d of
                       None \<Rightarrow> None
                     | Some u \<Rightarrow> map_option (\<lambda>(s, r'). (u # s, r')) (parse_string r))
                | _ \<Rightarrow> None)
             else
               (case unescape e of
                  None \<Rightarrow> None
                | Some u \<Rightarrow> map_option (\<lambda>(s, r'). (u # s, r')) (parse_string es)))
      else if c < 32 then None
      else map_option (\<lambda>(s, r'). (c # s, r')) (parse_string cs))"

definition digits :: "jstring \<Rightarrow> jstring \<times> jstring" where
  "digits s = (takeWhile is_digit s, dropWhile is_digit s)"

definition parse_int_part :: "jstring \<Rightarrow> (jstring \<times> jstring) option" where
  "parse_int_part s =
     (case s of
        [] \<Rightarrow> None
      | c # cs \<Rightarrow> if c = 48 then Some ([48], cs)
                  else if is_digit c then Some (digits s)
                  else None)"

definition parse_frac_part :: "jstring \<Rightarrow> (jstring \<times> jstring) option" where
  "parse_frac_part s =
     (case s of
        [] \<Rightarrow> Some ([], s)
      | c # cs \<Rightarrow> if c = 46 then
                    (case digits cs of (ds, r) \<Rightarrow> if ds = [] then None else Some (c # ds, r))
                  else Some ([], s))"

definition parse_exp_part :: "jstring \<Rightarrow> (jstring \<times> jstring) option" where
  "parse_exp_part s =
     (case s of
        [] \<Rightarrow> Some ([], s)
      | c # cs \<Rightarrow>
          if c = 101 \<or> c = 69 then
            (case cs of
               [] \<Rightarrow> None
             | g # gs \<Rightarrow>
                 if g = 43 \<or> g = 45 then
                   (case digits gs of (ds, r) \<Rightarrow> if ds = [] then None else Some (c # g # ds, r))
                 else
                   (case digits cs of (ds, r) \<Rightarrow> if ds = [] then None else Some (c # ds, r)))
          else Some ([], s))"

definition parse_number :: "jstring \<Rightarrow> (jstring \<times> jstring) option" where
  "parse_number s =
     (let (sign, s1) = (case s of [] \<Rightarrow> ([], s) | c # cs \<Rightarrow> if c = 45 then ([45], cs) else ([], s))
      in case parse_int_part s1 of
           None \<Rightarrow> None
         | Some (ip, s2) \<Rightarrow>
             (case parse_frac_part s2 of
                None \<Rightarrow> None
              | Some (fp, s3) \<Rightarrow>
                  (case parse_exp_part s3 of
                     None \<Rightarrow> None
                   | Some (ep, s4) \<Rightarrow> Some (sign @ ip @ fp @ ep, s4))))"

definition parse_literal :: "jstring \<Rightarrow> (json \<times> jstring) option" where
  "parse_literal s =
     (if take 4 s = js ''true'' then Some (JBool True, drop 4 s)
      else if take 5 s = js ''false'' then Some (JBool False, drop 5 s)
      else if take 4 s = js ''null'' then Some (JNull, drop 4 s)
      else map_option (\<lambda>(l, r). (JNum l, r)) (parse_number s))"

fun parse_value :: "nat \<Rightarrow> jstring \<Rightarrow> (json \<times> jstring) option"
  and parse_elements :: "nat \<Rightarrow> jstring \<Rightarrow> (json list \<times> jstring) option"
  and parse_members :: "nat \<Rightarrow> jstring \<Rightarrow> ((jstring \<times> json) list \<times> jstring) option" where
  "parse_value 0 s = None"
| "parse_value (Suc n) s =
     (case skip_ws s of
        [] \<Rightarrow> None
      | c # cs \<Rightarrow>
          if c = 34 then map_option (\<lambda>(t, r). (JStr t, r)) (parse_string cs)
          else if c = 91 then
            (case skip_ws cs of
               [] \<Rightarrow> None
             | d # ds \<Rightarrow> if d = 93 then Some (JArr [], ds)
                         else map_option (\<lambda>(vs, r). (JArr vs, r)) (parse_elements n cs))
          else if c = 123 then
            (case skip_ws cs of
               [] \<Rightarrow> None
             | d # ds \<Rightarrow> if d = 125 then Some (JObj [], ds)
                         else map_option (\<lambda>(ms, r). (JObj (Object_fromEntries ms), r))
                                (parse_members n cs))
          else parse_literal (c # cs))"
| "parse_elements 0 s = None"
| "parse_elements (Suc n) s =
     (case parse_value n s of
        None \<Rightarrow> None
      | Some (v, r) \<Rightarrow>
          (case skip_ws r of
             [] \<Rightarrow> None
           | c # cs \<Rightarrow>
               if c = 44 then map_option (\<lambda>(vs, r'). (v # vs, r')) (parse_elements n cs)
               else if c = 93 then Some ([v], cs)
               else None))"
| "parse_members 0 s = None"
| "parse_members (Suc n) s =
     (case skip_ws s of
        [] \<Rightarrow> None
      | q # qs \<Rightarrow>
          if q = 34 then
            (case parse_string qs of
               None \<Rightarrow> None
             | Some (k, r) \<Rightarrow>
                 (case skip_ws r of
                    [] \<Rightarrow> None
                  | c # cs \<Rightarrow>
                      if c = 58 then
                        (case parse_value n cs of
                           None \<Rightarrow> None
                         | Some (v, r') \<Rightarrow>
                             (case skip_ws r' of
                                [] \<Rightarrow> None
                              | d # ds \<Rightarrow>
                                  if d = 44 then
                                    map_option (\<lambda>(ms, r''). ((k, v) # ms, r'')) (parse_members n ds)
                                  else if d = 125 then Some ([(k, v)], ds)
                                  else None))
                      else None))
          else None)"

definition JSON_parse :: "jstring \<Rightarrow> json option" where
  "JSON_parse s =
     (case parse_value (Suc (length s)) s of
        None \<Rightarrow> None
      | Some (v, r) \<Rightarrow> if skip_ws r = [] then Some v else None)"


text \<open>
  The order in which an object enumerates its keys: array indices ascending, then the other
  keys; \<open>enumerationOrder\<close> holds of a property list that is in that order, without
  repeated keys.
\<close>

definition keyBefore :: "jstring \<Rightarrow> jstring \<Rightarrow> bool" where
  "keyBefore k k' =
     (case array_index k of
        Some i \<Rightarrow> (case array_index k' of Some j \<Rightarrow> i < j | None \<Rightarrow> True)
      | None \<Rightarrow> array_index k' = None \<and> k \<noteq> k')"

definition enumerationOrder :: "(jstring \<times> 'v) list \<Rightarrow> bool" where
  "enumerationOrder ps = sorted_wrt keyBefore (map fst ps)"

text \<open>
  Values without numbers whose objects are in enumeration order: what the manager itself
  serialises.  \<open>opener\<close> lists the first characters of their serialisations and
  \<open>memberText\<close> is the text of one object member.
\<close>

fun plain :: "json \<Rightarrow> bool" where
  "plain JNull = True"
| "plain (JBool b) = True"
| "plain (JNum l) = False"
| "plain (JStr s) = True"
| "plain (JArr vs) = (\<forall>v\<in>set vs. plain v)"
| "plain (JObj ps) = (enumerationOrder ps \<and> (\<forall>p\<in>set ps. plain (snd p)))"

definition opener :: "nat \<Rightarrow> bool" where
  "opener c = (c = 34 \<or> c = 91 \<or> c = 123 \<or> c = 110 \<or> c = 116 \<or> c = 102)"

definition memberText :: "jstring \<times> json \<Rightarrow> jstring" where
  "memberText p = QuoteJSONString (fst p) @ [58] @ JSON_stringify (snd p)"

section \<open>Message identity\<close>

text \<open>
  What the manager's operations can raise.  \<open>NotReady\<close> is the \<open>Error\<close> that
  \<open>sendMessage\<close> throws on a connection that is not open, \<open>SendFailure\<close> an exception
  of \<open>WebSocket.send\<close>.  \<open>encodeURIComponent\<close> writes the UTF-8 bytes of every
  character outside its unreserved set as \<open>%XX\<close> and raises \<open>URIError\<close> on an unpaired
  surrogate; \<open>btoa\<close> raises on a code unit above 255.
\<close>

datatype error =
    SyntaxError | TypeError | URIError | InvalidCharacterError | NotReady | SendFailure

definition is_alnum :: "nat \<Rightarrow> bool" where
  "is_alnum c = ((97 \<le> c \<and> c \<le> 122) \<or> (65 \<le> c \<and> c \<le> 90) \<or> (48 \<le> c \<and> c \<le> 57))"

definition is_unreserved :: "nat \<Rightarrow> bool" where
  "is_unreserved c = (is_alnum c \<or> c \<in> set (js ''-_.!~*'' @ [39] @ js ''()''))"

definition utf8 :: "nat \<Rightarrow> nat list" where
  "utf8 cp =
     (if cp < 0x80 then [cp]
      else if cp < 0x800 then [0xC0 + cp div 64, 0x80 + cp mod 64]
      else if cp < 0x10000 then [0xE0 + cp div 4096, 0x80 + cp div 64 mod 64, 0x80 + cp mod 64]
      else [0xF0 + cp div 262144, 0x80 + cp div 4096 mod 64, 0x80 + cp div 64 mod 64,
            0x80 + cp mod 64])"

definition upper_hex_digit :: "nat \<Rightarrow> nat" where
  "upper_hex_digit d = (if d < 10 then 48 + d else 55 + d)"

definition percent :: "nat \<Rightarrow> jstring" where
  "percent b = [37, upper_hex_digit (b div 16), upper_hex_digit (b mod 16)]"

definition percent_encode :: "nat \<Rightarrow> jstring" where
  "percent_encode cp = concat (map percent (utf8 cp))"

fun encodeURIComponent :: "jstring \<Rightarrow> jstring option" where
  "encodeURIComponent [] = Some []"
| "encodeURIComponent (c # cs) =
     (if is_unreserved c then map_option (\<lambda>r. c # r) (encodeURIComponent cs)
      else if is_low_surrogate c then None
      else if is_high_surrogate c then
        (case cs of
           [] \<Rightarrow> None
         | d # ds \<Rightarrow>
             if is_low_surrogate d then
               map_option (\<lambda>r. percent_encode (0x10000 + (c - 0xD800) * 1024 + (d - 0xDC00)) @ r)
                 (encodeURIComponent ds)
             else None)
      else map_option (\<lambda>r. percent_encode c @ r) (encodeURIComponent cs))"

definition base64_digit :: "nat \<Rightarrow> nat" where
  "base64_digit i =
     (if i < 26 then 65 + i else if i < 52 then 71 + i else if i < 62 then i - 4
      else if i = 62 then 43 else 47)"

fun base64 :: "nat list \<Rightarrow> jstring" where
  "base64 [] = []"
| "base64 [a] = [base64_digit (a div 4), base64_digit (a mod 4 * 16), 61, 61]"
| "base64 [a, b] =
     [base64_digit (a div 4), base64_digit (a mod 4 * 16 + b div 16), base64_digit (b mod 16 * 4), 61]"
| "base64 (a # b # c # r) =
     [base64_digit (a div 4), base64_digit (a mod 4 * 16 + b div 16),
      base64_digit (b mod 16 * 4 + c div 64), base64_digit (c mod 64)] @ base64 r"

definition btoa :: "jstring \<Rightarrow> jstring option" where
  "btoa s = (if list_all (\<lambda>c. c < 256) s then Some (base64 s) else None)"


section \<open>The page\<close>

text \<open>
  The part of the document the manager looks at.  An \<open>element\<close> is one message container
  (a node of class \<open>sc-leYdVB\<close>) with the two \<open>data-\<close> attributes the manager writes;
  \<open>document\<close> in the manager below lists the containers in document order.  Its children
  are the three text nodes the identity is derived from (the manager reads the first of each
  kind), the button and the wrapper that \<open>addReactionButton\<close> appends, a bare reactions
  container, the badges that \<open>updateAllReactionDisplays\<close> puts directly under the
  container, and anything else (\<open>HostNode\<close>).  A badge is what \<open>createReactionBadge\<close>
  sets: the text, the title and whether it is highlighted.
\<close>

record badge =
  badge_text :: jstring
  badge_title :: jstring
  badge_highlighted :: bool

datatype node =
    UserName jstring
  | MessageText jstring
  | Timestamp jstring
  | ReactionButton jstring
  | ReactionsWrapper "badge list"
  | ReactionsContainer "badge list"
  | ReactionBadge badge
  | HostNode

record element =
  children :: "node list"
  data_messageId :: "jstring option"
  data_hasReactions :: bool

fun userNameText :: "node list \<Rightarrow> jstring option" where
  "userNameText [] = None"
| "userNameText (UserName t # ns) = Some t"
| "userNameText (n # ns) = userNameText ns"

fun messageTextText :: "node list \<Rightarrow> jstring option" where
  "messageTextText [] = None"
| "messageTextText (MessageText t # ns) = Some t"
| "messageTextText (n # ns) = messageTextText ns"

fun timestampText :: "node list \<Rightarrow> jstring option" where
  "timestampText [] = None"
| "timestampText (Timestamp t # ns) = Some t"
| "timestampText (n # ns) = timestampText ns"

definition textOrEmpty :: "jstring option \<Rightarrow> jstring" where
  "textOrEmpty t = (case t of None \<Rightarrow> [] | Some s \<Rightarrow> s)"

definition generateMessageId :: "element \<Rightarrow> error + jstring" where
  "generateMessageId container =
     (let text = textOrEmpty (messageTextText (children container));
          user = textOrEmpty (userNameText (children container));
          timestamp = textOrEmpty (timestampText (children container));
          uniqueString = user @ js ''-'' @ text @ js ''-'' @ timestamp
      in case encodeURIComponent uniqueString of
           None \<Rightarrow> Inl URIError
         | Some encoded \<Rightarrow>
             (case btoa encoded of
                None \<Rightarrow> Inl InvalidCharacterError
              | Some b \<Rightarrow> Inr (js ''msg-'' @ take 32 (filter is_alnum b))))"

definition identityOf :: "jstring \<Rightarrow> jstring \<Rightarrow> jstring \<Rightarrow> jstring option" where
  "identityOf user text timestamp =
     map_option (\<lambda>encoded. take 32 (filter is_alnum (base64 encoded)))
       (encodeURIComponent (user @ js ''-'' @ text @ js ''-'' @ timestamp))"

section \<open>The reaction manager\<close>

text \<open>
  The fields of the class (\<open>messageReactions\<close>, \<open>messageQueue\<close>, \<open>ws\<close> by its ready
  state, \<open>reconnectAttempts\<close>) and what it reads and writes around it: the page, the
  storage, the \<open>sessionToken\<close> parameter of the address, the name of the user.  The rest
  records what happens at the boundary:
  \<^item> \<open>sent\<close> lists the frames handed to \<open>WebSocket.send\<close>, and \<open>sendFaults\<close> says
    which of the coming calls of \<open>send\<close> raise (none once the list is used up);
  \<^item> \<open>reconnectTimers\<close> counts the reconnection timers that are set and have not fired,
    \<open>connectCalls\<close> the calls of \<open>connectWebSocket\<close>;
  \<^item> \<open>console\<close> is the log, one entry for each \<open>console.log\<close> and \<open>console.error\<close>;
  \<^item> \<open>outsideTypes\<close> is set where the program goes on with a value that this record cannot
    hold or with a step that is not modelled: a table whose keys or reactor lists are not of
    the declared type \<open>Map<string, Map<string, string[]>>\<close>, the text of a number that is
    not a short integer, a selector that goes on after the attribute value.  The other fields
    of a manager with this flag say nothing about the program; every statement below that
    speaks of a table is about managers reached without it.
  An \<open>await\<close> in the source resumes in a microtask, before any other event is handled, so
  each handler runs to completion here.
\<close>

datatype ReadyState = CONNECTING | OPEN | CLOSING | CLOSED

datatype ReactionAction = Add | Remove

datatype WebSocketMessage =
    ReactionUpdate jstring jstring jstring ReactionAction
  | UpdateReactions jstring jstring

record manager =
  messageReactions :: MessageReactions
  messageQueue :: "WebSocketMessage list"
  ws :: "ReadyState option"
  reconnectAttempts :: nat
  document :: "element list"
  localStorage :: "jstring \<rightharpoonup> jstring"
  sessionTokenParam :: "jstring option"
  actualUserName :: jstring
  sent :: "jstring list"
  sendFaults :: "bool list"
  reconnectTimers :: nat
  connectCalls :: nat
  console :: "string list"
  outsideTypes :: bool

definition maxReconnectAttempts :: nat where
  "maxReconnectAttempts = 5"

definition console_log :: "string \<Rightarrow> manager \<Rightarrow> manager" where
  "console_log line st = st\<lparr>console := console st @ [line]\<rparr>"

definition isConnectionReady :: "manager \<Rightarrow> bool" where
  "isConnectionReady st = (ws st = Some OPEN)"

definition getSessionToken :: "manager \<Rightarrow> jstring" where
  "getSessionToken st =
     (case sessionTokenParam st of
        None \<Rightarrow> js ''default-session''
      | Some t \<Rightarrow> if t = [] then js ''default-session'' else t)"

definition storageKey :: "jstring \<Rightarrow> jstring" where
  "storageKey sessionToken = js ''wwsnb_reactions_'' @ sessionToken"

fun messageJSON :: "WebSocketMessage \<Rightarrow> json" where
  "messageJSON (ReactionUpdate messageId emoji userId action) =
     JObj [(js ''type'', JStr (js ''reaction_update'')),
           (js ''data'', JObj [(js ''messageId'', JStr messageId), (js ''emoji'', JStr emoji),
              (js ''userId'', JStr userId),
              (js ''action'', JStr (case action of Add \<Rightarrow> js ''add'' | Remove \<Rightarrow> js ''remove''))])]"
| "messageJSON (UpdateReactions sessionToken reactions) =
     JObj [(js ''type'', JStr (js ''update_reactions'')),
           (js ''sessionToken'', JStr sessionToken),
           (js ''data'', JObj [(js ''reactions'', JStr reactions)])]"

definition ws_send :: "jstring \<Rightarrow> manager \<Rightarrow> error option \<times> manager" where
  "ws_send frame st =
     (case sendFaults st of
        [] \<Rightarrow> (None, st\<lparr>sent := sent st @ [frame]\<rparr>)
      | fault # faults \<Rightarrow>
          if fault then (Some SendFailure, st\<lparr>sendFaults := faults\<rparr>)
          else (None, st\<lparr>sent := sent st @ [frame], sendFaults := faults\<rparr>))"

definition sendMessage :: "WebSocketMessage \<Rightarrow> manager \<Rightarrow> error option \<times> manager" where
  "sendMessage message st =
     (if \<not> isConnectionReady st then (Some NotReady, st)
      else ws_send (JSON_stringify (messageJSON message)) st)"

function processQueue :: "manager \<Rightarrow> manager" where
  "processQueue st =
     (if isConnectionReady st \<and> length (messageQueue st) > 0 then
        (case messageQueue st of
           [] \<Rightarrow> st
         | message # rest \<Rightarrow>
             (case sendMessage message (st\<lparr>messageQueue := rest\<rparr>) of
                (None, st') \<Rightarrow> processQueue st'
              | (Some err, st') \<Rightarrow>
                  console_log ''Failed to send message''
                    (st'\<lparr>messageQueue := message # messageQueue st'\<rparr>)))
      else st)"
  by pat_completeness auto

termination processQueue
  by (relation "measure (\<lambda>st. length (messageQueue st))")
     (auto simp: sendMessage_def ws_send_def split: list.splits if_splits)

definition queueMessage :: "WebSocketMessage \<Rightarrow> manager \<Rightarrow> manager" where
  "queueMessage message st = processQueue (st\<lparr>messageQueue := messageQueue st @ [message]\<rparr>)"

definition getReactionAction :: "jstring \<Rightarrow> jstring \<Rightarrow> jstring \<Rightarrow> manager \<Rightarrow> ReactionAction" where
  "getReactionAction messageId emoji userId st =
     (let users = (case map_get (messageReactions st) messageId of
                     None \<Rightarrow> []
                   | Some reactions \<Rightarrow>
                       (case map_get reactions emoji of None \<Rightarrow> [] | Some us \<Rightarrow> us))
      in if userId \<in> set users then Remove else Add)"

definition sendReactionUpdate ::
  "jstring \<Rightarrow> jstring \<Rightarrow> jstring \<Rightarrow> manager \<Rightarrow> error option \<times> manager" where
  "sendReactionUpdate messageId emoji userId st =
     (let message = ReactionUpdate messageId emoji userId
                      (getReactionAction messageId emoji userId st)
      in if isConnectionReady st then sendMessage message st
         else (None, queueMessage message st))"


subsection \<open>Rendering\<close>

definition createReactionBadge :: "jstring \<Rightarrow> jstring list \<Rightarrow> jstring \<Rightarrow> badge" where
  "createReactionBadge emoji users currentUser =
     \<lparr>badge_text = emoji @ js '' '' @ show_nat (length users),
      badge_title = join (js '', '') users,
      badge_highlighted = (currentUser \<noteq> [] \<and> currentUser \<in> set users)\<rparr>"

definition updateReactionDisplay :: "jstring \<Rightarrow> manager \<Rightarrow> badge list \<times> manager" where
  "updateReactionDisplay messageId st =
     (let reactions = (case map_get (messageReactions st) messageId of Some r \<Rightarrow> r | None \<Rightarrow> []);
          currentUserName = actualUserName st
      in if currentUserName = [] then ([], console_log ''User name is not defined'' st)
         else (map (\<lambda>(emoji, users). createReactionBadge emoji users currentUserName) reactions,
               st))"

fun hasReactionsContainer :: "node list \<Rightarrow> bool" where
  "hasReactionsContainer [] = False"
| "hasReactionsContainer (ReactionsWrapper bs # ns) = True"
| "hasReactionsContainer (ReactionsContainer bs # ns) = True"
| "hasReactionsContainer (n # ns) = hasReactionsContainer ns"

definition ensureReactionsContainer :: "node list \<Rightarrow> node list" where
  "ensureReactionsContainer ns =
     (if hasReactionsContainer ns then ns else ns @ [ReactionsContainer []])"

fun fillFirstContainer :: "badge list \<Rightarrow> node list \<Rightarrow> node list" where
  "fillFirstContainer badges [] = []"
| "fillFirstContainer badges (ReactionsWrapper bs # ns) = ReactionsWrapper badges # ns"
| "fillFirstContainer badges (ReactionsContainer bs # ns) = ReactionsContainer badges # ns"
| "fillFirstContainer badges (n # ns) = n # fillFirstContainer badges ns"

fun updateFirstElement :: "jstring \<Rightarrow> (element \<Rightarrow> element) \<Rightarrow> element list \<Rightarrow> element list" where
  "updateFirstElement messageId f [] = []"
| "updateFirstElement messageId f (el # els) =
     (if data_messageId el = Some messageId then f el # els
      else el # updateFirstElement messageId f els)"

text \<open>
  The selector \<open>[data-message-id="${messageId}"]\<close> that \<open>updateMessageReactions\<close> hands
  to \<open>document.querySelector\<close>.  The identity is spliced into a CSS string, so the
  selector reads it with the CSS tokenizer:
  \<^item> with no double quote, backslash or newline in it, the identity is the value looked for,
    a NUL or an unpaired surrogate replaced by U+FFFD as the tokenizer does;
  \<^item> an unescaped newline ends the string as a bad string, and a double quote ends the string
    early; what follows a string in an attribute selector must be white space, a comment, the
    modifier \<open>i\<close> or \<open>s\<close>, or the closing bracket, so any other continuation is a
    selector that does not parse, and \<open>querySelector\<close> raises \<open>SyntaxError\<close>;
  \<^item> the remaining identities (a backslash escape, or a quote followed by a continuation that
    may parse as more selector) are \<open>BeyondString\<close>: the grammar of selectors past the
    attribute value is not modelled.
\<close>

datatype selector = Value jstring | InvalidSelector | BeyondString

definition css_newline :: "nat \<Rightarrow> bool" where
  "css_newline c = (c = 10 \<or> c = 12 \<or> c = 13)"

definition css_whitespace :: "nat \<Rightarrow> bool" where
  "css_whitespace c = (c = 32 \<or> c = 9 \<or> css_newline c)"

definition css_name_start :: "nat \<Rightarrow> bool" where
  "css_name_start c = ((65 \<le> c \<and> c \<le> 90) \<or> (97 \<le> c \<and> c \<le> 122) \<or> c = 95 \<or> 128 \<le> c)"

definition css_name_char :: "nat \<Rightarrow> bool" where
  "css_name_char c = (css_name_start c \<or> is_digit c \<or> c = 45)"

definition css_literal :: "nat \<Rightarrow> bool" where
  "css_literal c = (c \<noteq> 34 \<and> c \<noteq> 92 \<and> \<not> css_newline c)"

fun css_input :: "jstring \<Rightarrow> jstring" where
  "css_input [] = []"
| "css_input [c] = (if c = 0 \<or> is_high_surrogate c \<or> is_low_surrogate c then [0xFFFD] else [c])"
| "css_input (c # d # cs) =
     (if is_high_surrogate c \<and> is_low_surrogate d then c # d # css_input cs
      else if c = 0 \<or> is_high_surrogate c \<or> is_low_surrogate c then 0xFFFD # css_input (d # cs)
      else c # css_input (d # cs))"

definition afterAttributeValue :: "jstring \<Rightarrow> selector" where
  "afterAttributeValue rest =
     (case dropWhile css_whitespace rest of
        [] \<Rightarrow> BeyondString
      | c # cs \<Rightarrow>
          if c = 93 \<or> c = 92 \<or> c = 47 then BeyondString
          else if css_name_start c then
            (let name = takeWhile css_name_char (c # cs);
                 next = dropWhile css_name_char (c # cs)
             in if (case next of [] \<Rightarrow> False | e # es \<Rightarrow> e = 92) then BeyondString
                else if name = [105] \<or> name = [73] \<or> name = [115] \<or> name = [83]
                then BeyondString
                else InvalidSelector)
          else InvalidSelector)"

definition messageSelector :: "jstring \<Rightarrow> selector" where
  "messageSelector messageId =
     (case dropWhile css_literal messageId of
        [] \<Rightarrow> Value (css_input messageId)
      | c # rest \<Rightarrow>
          if css_newline c then InvalidSelector
          else if c = 92 then BeyondString
          else afterAttributeValue (rest @ [34, 93]))"

definition updateMessageReactions :: "jstring \<Rightarrow> manager \<Rightarrow> error option \<times> manager" where
  "updateMessageReactions messageId st =
     (case messageSelector messageId of
        InvalidSelector \<Rightarrow> (Some SyntaxError, st)
      | BeyondString \<Rightarrow> (None, st\<lparr>outsideTypes := True\<rparr>)
      | Value v \<Rightarrow>
          if list_ex (\<lambda>el. data_messageId el = Some v) (document st) then
            (case updateReactionDisplay messageId st of
               (badges, st') \<Rightarrow>
                 (None,
                  st'\<lparr>document :=
                        updateFirstElement v
                          (\<lambda>el. el\<lparr>children :=
                                     fillFirstContainer badges
                                       (ensureReactionsContainer (children el))\<rparr>)
                          (document st')\<rparr>))
          else (None, st))"

definition elementMessageId :: "element \<Rightarrow> error + jstring" where
  "elementMessageId el =
     (case data_messageId el of
        None \<Rightarrow> generateMessageId el
      | Some m \<Rightarrow> if m = [] then generateMessageId el else Inr m)"

fun updateAllLoop :: "element list \<Rightarrow> element list \<Rightarrow> manager \<Rightarrow> error option \<times> manager" where
  "updateAllLoop done [] st = (None, st\<lparr>document := done\<rparr>)"
| "updateAllLoop done (el # els) st =
     (case elementMessageId el of
        Inl err \<Rightarrow> (Some err, st\<lparr>document := done @ el # els\<rparr>)
      | Inr messageId \<Rightarrow>
          (let el1 = el\<lparr>data_messageId := Some messageId\<rparr>
           in if map_has (messageReactions st) messageId then
                (case updateReactionDisplay messageId st of
                   (badges, st') \<Rightarrow>
                     updateAllLoop
                       (done @ [el1\<lparr>children := map ReactionBadge badges,
                                    data_hasReactions := True\<rparr>])
                       els st')
              else updateAllLoop (done @ [el1]) els st))"

definition updateAllReactionDisplays :: "manager \<Rightarrow> error option \<times> manager" where
  "updateAllReactionDisplays st = updateAllLoop [] (document st) st"

subsection \<open>Persistence\<close>

definition snapshotObject :: "MessageReactions \<Rightarrow> json" where
  "snapshotObject mr =
     JObj (Object_fromEntries
       (map (\<lambda>(messageId, reactions).
               (messageId,
                JObj (Object_fromEntries (map (\<lambda>(emoji, users). (emoji, JArr (map JStr users)))
                       reactions))))
          mr))"

definition saveToLocalStorage :: "jstring \<Rightarrow> manager \<Rightarrow> manager" where
  "saveToLocalStorage sessionToken st =
     st\<lparr>localStorage :=
          (localStorage st)(storageKey sessionToken \<mapsto>
             JSON_stringify (snapshotObject (messageReactions st)))\<rparr>"

text \<open>
  Reading a table out of parsed JSON gives a table of the declared type (\<open>Typed\<close>), raises
  (\<open>Throws\<close>: a property of \<open>null\<close> or \<open>undefined\<close> is read, or \<open>map\<close> is called on
  something that is not an array), or completes with a table that is not of the declared
  type (\<open>Untyped\<close>: a key that is not a string, a reactor list that holds something
  else than strings).  In the last case the program assigns that table and carries on;
  \<open>messageReactions\<close> cannot hold it, and the manager gets the flag \<open>outsideTypes\<close>.
\<close>

datatype 'a decoded = Typed 'a | Untyped | Throws

fun collect :: "'a decoded list \<Rightarrow> 'a list decoded" where
  "collect [] = Typed []"
| "collect (d # ds) =
     (case d of
        Throws \<Rightarrow> Throws
      | Untyped \<Rightarrow> (case collect ds of Throws \<Rightarrow> Throws | _ \<Rightarrow> Untyped)
      | Typed x \<Rightarrow> (case collect ds of Typed xs \<Rightarrow> Typed (x # xs) | r \<Rightarrow> r))"

fun strings_of :: "json list \<Rightarrow> jstring list option" where
  "strings_of [] = Some []"
| "strings_of (JStr s # vs) = map_option (\<lambda>ss. s # ss) (strings_of vs)"
| "strings_of (v # vs) = None"

definition newMap :: "('k \<times> 'v) list \<Rightarrow> ('k, 'v) jsmap" where
  "newMap entries = foldl (\<lambda>m (k, v). map_set k v m) [] entries"

definition indexed :: "'a list \<Rightarrow> (jstring \<times> 'a) list" where
  "indexed xs = map (\<lambda>i. (show_nat i, xs ! i)) [0 ..< length xs]"

definition Object_entries :: "json \<Rightarrow> (jstring \<times> json) list option" where
  "Object_entries v =
     (case v of
        JNull \<Rightarrow> None
      | JBool b \<Rightarrow> Some []
      | JNum l \<Rightarrow> Some []
      | JStr s \<Rightarrow> Some (indexed (map (\<lambda>c. JStr [c]) s))
      | JArr vs \<Rightarrow> Some (indexed vs)
      | JObj ps \<Rightarrow> Some ps)"

definition storedUsers :: "json \<Rightarrow> jstring list decoded" where
  "storedUsers users =
     (case users of
        JArr us \<Rightarrow> (case strings_of us of Some l \<Rightarrow> Typed l | None \<Rightarrow> Untyped)
      | _ \<Rightarrow> Typed [])"

definition storedReactions :: "json \<Rightarrow> ReactionSet decoded" where
  "storedReactions reactions =
     (case Object_entries reactions of
        None \<Rightarrow> Throws
      | Some es \<Rightarrow>
          (case collect (map (\<lambda>(emoji, users).
                               case storedUsers users of
                                 Typed l \<Rightarrow> Typed (emoji, l) | Untyped \<Rightarrow> Untyped | Throws \<Rightarrow> Throws)
                          es) of
             Typed entries \<Rightarrow> Typed (newMap entries)
           | Untyped \<Rightarrow> Untyped
           | Throws \<Rightarrow> Throws))"

definition storedState :: "json \<Rightarrow> MessageReactions decoded" where
  "storedState reactionsObj =
     (case Object_entries reactionsObj of
        None \<Rightarrow> Throws
      | Some es \<Rightarrow>
          (case collect (map (\<lambda>(messageId, reactions).
                               case storedReactions reactions of
                                 Typed r \<Rightarrow> Typed (messageId, r) | Untyped \<Rightarrow> Untyped
                               | Throws \<Rightarrow> Throws)
                          es) of
             Typed entries \<Rightarrow> Typed (newMap entries)
           | Untyped \<Rightarrow> Untyped
           | Throws \<Rightarrow> Throws))"

text \<open>
  \<open>loadReactionsFromStorage\<close>: an absent or empty item leaves the table alone; otherwise
  the text is parsed and the table rebuilt entry by entry, a \<open>users\<close> value that is not an
  array counting as no users.  The redraw is inside the \<open>try\<close>: whatever is raised, by the
  parse, by the rebuild or by the redraw, is logged and the table is reset to empty.
\<close>

definition loadFailed :: "manager \<Rightarrow> manager" where
  "loadFailed st = (console_log ''Error loading reactions'' st)\<lparr>messageReactions := []\<rparr>"

definition redrawAfterLoad :: "manager \<Rightarrow> manager" where
  "redrawAfterLoad st =
     (case updateAllReactionDisplays st of
        (None, st') \<Rightarrow> st'
      | (Some err, st') \<Rightarrow> loadFailed st')"

definition loadReactionsFromStorage :: "jstring \<Rightarrow> manager \<Rightarrow> manager" where
  "loadReactionsFromStorage sessionToken st =
     (case localStorage st (storageKey sessionToken) of
        None \<Rightarrow> redrawAfterLoad st
      | Some saved \<Rightarrow>
          if saved = [] then redrawAfterLoad st
          else (case JSON_parse saved of
                  None \<Rightarrow> loadFailed st
                | Some reactionsObj \<Rightarrow>
                    (case storedState reactionsObj of
                       Throws \<Rightarrow> loadFailed st
                     | Untyped \<Rightarrow> st\<lparr>outsideTypes := True\<rparr>
                     | Typed mr \<Rightarrow> redrawAfterLoad (st\<lparr>messageReactions := mr\<rparr>))))"

subsection \<open>Snapshots pushed by the relay\<close>

definition parsedReaction :: "json \<Rightarrow> (jstring \<times> jstring list) decoded" where
  "parsedReaction r =
     (case r of
        JNull \<Rightarrow> Throws
      | JObj ps \<Rightarrow>
          (case (map_of ps (js ''emoji''), map_of ps (js ''users'')) of
             (Some (JStr emoji), Some (JArr us)) \<Rightarrow>
               (case strings_of us of Some users \<Rightarrow> Typed (emoji, users) | None \<Rightarrow> Untyped)
           | _ \<Rightarrow> Untyped)
      | _ \<Rightarrow> Untyped)"

definition parsedMessageReaction :: "json \<Rightarrow> (jstring \<times> ReactionSet) decoded" where
  "parsedMessageReaction data =
     (case data of
        JObj ps \<Rightarrow>
          (case map_of ps (js ''reactions'') of
             Some (JArr rs) \<Rightarrow>
               (case collect (map parsedReaction rs) of
                  Throws \<Rightarrow> Throws
                | Untyped \<Rightarrow> Untyped
                | Typed entries \<Rightarrow>
                    (case map_of ps (js ''messageId'') of
                       Some (JStr messageId) \<Rightarrow> Typed (messageId, newMap entries)
                     | _ \<Rightarrow> Untyped))
           | _ \<Rightarrow> Throws)
      | _ \<Rightarrow> Throws)"

definition parsedState :: "json \<Rightarrow> MessageReactions decoded" where
  "parsedState parsedReactions =
     (case parsedReactions of
        JArr ds \<Rightarrow>
          (case collect (map parsedMessageReaction ds) of
             Typed entries \<Rightarrow> Typed (newMap entries)
           | Untyped \<Rightarrow> Untyped
           | Throws \<Rightarrow> Throws)
      | _ \<Rightarrow> Throws)"

text \<open>
  \<open>updateReactionsState\<close> parses its argument, builds the new table, assigns it, and
  redraws; whatever is raised on the way is caught and logged.  The table is assigned before
  the redraw, so an exception of the redraw leaves the new table in place.
  \<open>handleWebSocketMessage\<close> passes \<open>data.reactions\<close>, which need not be a string:
  \<open>JSON.parse\<close> first turns its argument into text.  For \<open>undefined\<close>, \<open>null\<close>, a
  truth value or an object that text is \<open>undefined\<close>, \<open>null\<close>, \<open>true\<close>, \<open>false\<close> or
  \<open>[object Object]\<close>; for a number it is a numeral or \<open>Infinity\<close>, which parses to a
  number or not at all, and either way the handler ends in its \<open>catch\<close>; for an array it
  is \<open>ToString\<close> of the array.
\<close>

definition updateFailed :: "manager \<Rightarrow> manager" where
  "updateFailed st = console_log ''Error updating reactions state'' st"

definition updateFromText :: "jstring \<Rightarrow> manager \<Rightarrow> manager" where
  "updateFromText reactionsData st =
     (case JSON_parse reactionsData of
        None \<Rightarrow> updateFailed st
      | Some parsedReactions \<Rightarrow>
          (case parsedState parsedReactions of
             Throws \<Rightarrow> updateFailed st
           | Untyped \<Rightarrow> st\<lparr>outsideTypes := True\<rparr>
           | Typed mr \<Rightarrow>
               (case updateAllReactionDisplays (st\<lparr>messageReactions := mr\<rparr>) of
                  (None, st') \<Rightarrow> st'
                | (Some err, st') \<Rightarrow> updateFailed st')))"

definition updateReactionsState :: "json option \<Rightarrow> manager \<Rightarrow> manager" where
  "updateReactionsState reactionsData st =
     (case reactionsData of
        None \<Rightarrow> updateFromText (js ''undefined'') st
      | Some (JStr s) \<Rightarrow> updateFromText s st
      | Some JNull \<Rightarrow> updateFromText (js ''null'') st
      | Some (JBool b) \<Rightarrow> updateFromText (if b then js ''true'' else js ''false'') st
      | Some (JNum l) \<Rightarrow> updateFailed st
      | Some (JObj ps) \<Rightarrow> updateFromText (js ''[object Object]'') st
      | Some (JArr vs) \<Rightarrow>
          (case ToString (JArr vs) of
             None \<Rightarrow> st\<lparr>outsideTypes := True\<rparr>
           | Some text \<Rightarrow> updateFromText text st))"

definition handleWebSocketMessage :: "jstring \<Rightarrow> manager \<Rightarrow> manager" where
  "handleWebSocketMessage eventData st =
     (case JSON_parse eventData of
        None \<Rightarrow> console_log ''Error handling WebSocket message'' st
      | Some data \<Rightarrow>
          (case data of
             JNull \<Rightarrow> console_log ''Error handling WebSocket message'' st
           | JObj ps \<Rightarrow>
               if map_of ps (js ''type'') = Some (JStr (js ''update_reactions''))
               then updateReactionsState (map_of ps (js ''reactions'')) st
               else st
           | _ \<Rightarrow> st))"

subsection \<open>Toggling a reaction and attaching the controls\<close>

text \<open>
  \<open>addReaction\<close> awaits \<open>sendReactionUpdate\<close> and then updates the table, the display and
  the stored snapshot; an exception of any of these steps is caught and logged, and the steps
  after it are skipped.  \<open>addReactionButton\<close> derives the identity before it touches the
  element, so an exception of \<open>generateMessageId\<close> leaves the element unmarked;
  \<open>checkAndAddReactionButtons\<close> does not catch it, and the scan stops there.
\<close>

definition addReaction :: "jstring \<Rightarrow> jstring \<Rightarrow> manager \<Rightarrow> manager" where
  "addReaction messageId emoji st =
     (let currentUserName = actualUserName st
      in if currentUserName = [] then console_log ''User name is not defined'' st
         else (case sendReactionUpdate messageId emoji currentUserName st of
                 (Some err, st') \<Rightarrow> console_log ''Failed to update reaction'' st'
               | (None, st') \<Rightarrow>
                   (let st1 = st'\<lparr>messageReactions :=
                                   updateLocalReaction messageId emoji currentUserName
                                     (messageReactions st')\<rparr>
                    in case updateMessageReactions messageId st1 of
                         (Some err, st2) \<Rightarrow> console_log ''Failed to update reaction'' st2
                       | (None, st2) \<Rightarrow> saveToLocalStorage (getSessionToken st2) st2)))"

definition addReactionButton :: "element \<Rightarrow> manager \<Rightarrow> error option \<times> element \<times> manager" where
  "addReactionButton messageContainer st =
     (if data_hasReactions messageContainer then (None, messageContainer, st)
      else (case generateMessageId messageContainer of
              Inl err \<Rightarrow> (Some err, messageContainer, st)
            | Inr messageId \<Rightarrow>
                (let st1 = (if \<not> map_has (messageReactions st) messageId
                            then st\<lparr>messageReactions := map_set messageId [] (messageReactions st)\<rparr>
                            else st)
                 in case updateReactionDisplay messageId st1 of
                      (badges, st2) \<Rightarrow>
                        (None,
                         messageContainer\<lparr>
                           children := children messageContainer
                                         @ [ReactionButton messageId, ReactionsWrapper badges],
                           data_messageId := Some messageId,
                           data_hasReactions := True\<rparr>,
                         st2))))"

fun checkLoop :: "element list \<Rightarrow> element list \<Rightarrow> manager \<Rightarrow> error option \<times> manager" where
  "checkLoop done [] st = (None, st\<lparr>document := done\<rparr>)"
| "checkLoop done (container # els) st =
     (if \<not> data_hasReactions container then
        (case addReactionButton container st of
           (Some err, container', st') \<Rightarrow> (Some err, st'\<lparr>document := done @ container' # els\<rparr>)
         | (None, container', st') \<Rightarrow> checkLoop (done @ [container']) els st')
      else checkLoop (done @ [container]) els st)"

definition checkAndAddReactionButtons :: "manager \<Rightarrow> error option \<times> manager" where
  "checkAndAddReactionButtons st = checkLoop [] (document st) st"

subsection \<open>The connection\<close>

text \<open>
  The handlers that \<open>setupWebSocketHandlers\<close> installs, and the events the manager reacts
  to: the four events of the socket, the firing of a reconnection timer, the pick of an emoji
  for a message, and a scan of the page (periodic, or after a mutation).  In the initial
  full-state message the table is serialised by \<open>JSON.stringify(Array.from(entries()))\<close>:
  each entry is a pair of the message identity and a \<open>Map\<close>, and a \<open>Map\<close> serialises as
  \<open>{}\<close>.
\<close>

definition connectWebSocket :: "jstring \<Rightarrow> manager \<Rightarrow> manager" where
  "connectWebSocket sessionToken st =
     st\<lparr>ws := Some CONNECTING, connectCalls := connectCalls st + 1\<rparr>"

definition broadcastEntries :: "MessageReactions \<Rightarrow> json" where
  "broadcastEntries mr = JArr (map (\<lambda>(messageId, reactions). JArr [JStr messageId, JObj []]) mr)"

definition sendInitialState :: "jstring \<Rightarrow> manager \<Rightarrow> error option \<times> manager" where
  "sendInitialState sessionToken st =
     (if ws st \<noteq> Some OPEN then (None, st)
      else ws_send
             (JSON_stringify (messageJSON
                (UpdateReactions sessionToken
                   (JSON_stringify (broadcastEntries (messageReactions st))))))
             st)"

definition handleReconnection :: "jstring \<Rightarrow> manager \<Rightarrow> manager" where
  "handleReconnection sessionToken st =
     (if reconnectAttempts st < maxReconnectAttempts then
        (console_log ''Attempting to reconnect''
           (st\<lparr>reconnectAttempts := reconnectAttempts st + 1\<rparr>))
          \<lparr>reconnectTimers := reconnectTimers st + 1\<rparr>
      else console_log ''Max reconnection attempts reached'' st)"

definition onopen :: "jstring \<Rightarrow> manager \<Rightarrow> manager" where
  "onopen sessionToken st =
     (let st1 = (console_log ''WebSocket connected'' st)\<lparr>reconnectAttempts := 0\<rparr>
      in case sendInitialState sessionToken st1 of
           (Some err, st2) \<Rightarrow> st2
         | (None, st2) \<Rightarrow> processQueue st2)"

definition onclose :: "jstring \<Rightarrow> manager \<Rightarrow> manager" where
  "onclose sessionToken st = handleReconnection sessionToken st"

definition onerror :: "jstring \<Rightarrow> manager \<Rightarrow> manager" where
  "onerror sessionToken st = handleReconnection sessionToken (console_log ''WebSocket error'' st)"

text \<open>
  \<open>setup\<close> (here \<open>setup_manager\<close>): the first scan of the page, then \<open>initializeReactions\<close>, which opens the
  connection and loads the stored snapshot.  The mutation observer and the periodic check
  that \<open>setup\<close> installs show up later as \<open>Scan\<close> events.  An exception of the scan
  leaves \<open>setup\<close> before \<open>initializeReactions\<close> is reached.
\<close>

definition initializeReactions :: "jstring \<Rightarrow> manager \<Rightarrow> manager" where
  "initializeReactions sessionToken st =
     loadReactionsFromStorage sessionToken (connectWebSocket sessionToken st)"

definition setup_manager :: "manager \<Rightarrow> error option \<times> manager" where
  "setup_manager st =
     (case checkAndAddReactionButtons
             (console_log ''Initializing message reactions module'' st) of
        (Some err, st') \<Rightarrow> (Some err, st')
      | (None, st') \<Rightarrow> (None, initializeReactions (getSessionToken st') st'))"

datatype event =
    WsOpen | WsClose | WsError | WsMessage jstring | ReconnectTimer
  | PickReaction jstring jstring | Scan

fun step :: "jstring \<Rightarrow> event \<Rightarrow> manager \<Rightarrow> manager" where
  "step sessionToken WsOpen st = onopen sessionToken (st\<lparr>ws := Some OPEN\<rparr>)"
| "step sessionToken WsClose st = onclose sessionToken (st\<lparr>ws := Some CLOSED\<rparr>)"
| "step sessionToken WsError st = onerror sessionToken st"
| "step sessionToken (WsMessage eventData) st = handleWebSocketMessage eventData st"
| "step sessionToken ReconnectTimer st =
     (if reconnectTimers st > 0
      then connectWebSocket sessionToken (st\<lparr>reconnectTimers := reconnectTimers st - 1\<rparr>)
      else st)"
| "step sessionToken (PickReaction messageId emoji) st = addReaction messageId emoji st"
| "step sessionToken Scan st = snd (checkAndAddReactionButtons st)"

fun run :: "jstring \<Rightarrow> event list \<Rightarrow> manager \<Rightarrow> manager" where
  "run sessionToken [] st = st"
| "run sessionToken (ev # evs) st = run sessionToken evs (step sessionToken ev st)"



section \<open>Observations used in the statements\<close>

text \<open>The three counters of the reconnection logic.\<close>

definition conn :: "manager \<Rightarrow> nat \<times> nat \<times> nat" where
  "conn st = (reconnectAttempts st, reconnectTimers st, connectCalls st)"

text \<open>The number of close and error events in a trace.\<close>

definition failures :: "event list \<Rightarrow> nat" where
  "failures evs = length (filter (\<lambda>ev. ev = WsClose \<or> ev = WsError) evs)"

text \<open>
  A freshly constructed manager (the field initialisers of the class) on a given page, with
  a given \<open>sessionToken\<close> URL parameter and user name, and an empty storage.
\<close>

definition newManager :: "element list \<Rightarrow> jstring option \<Rightarrow> jstring \<Rightarrow> manager" where
  "newManager page tokenParam userName =
     \<lparr>messageReactions = [], messageQueue = [], ws = None, reconnectAttempts = 0,
      document = page, localStorage = Map.empty, sessionTokenParam = tokenParam,
      actualUserName = userName, sent = [], sendFaults = [], reconnectTimers = 0,
      connectCalls = 0, console = [], outsideTypes = False\<rparr>"


text \<open>
  The frames of a list of messages, a list of messages queued one after the other, and the
  frame of the initial full-state message for a table.
\<close>

definition framesOf :: "WebSocketMessage list \<Rightarrow> jstring list" where
  "framesOf ms = map (\<lambda>message. JSON_stringify (messageJSON message)) ms"

definition queueAll :: "WebSocketMessage list \<Rightarrow> manager \<Rightarrow> manager" where
  "queueAll ms st = foldl (\<lambda>st' message. queueMessage message st') st ms"

definition initialStateFrame :: "jstring \<Rightarrow> MessageReactions \<Rightarrow> jstring" where
  "initialStateFrame sessionToken mr =
     JSON_stringify (messageJSON
       (UpdateReactions sessionToken (JSON_stringify (broadcastEntries mr))))"

text \<open>A message container to which the controls are attached already.\<close>

definition attachedMessage :: "jstring \<Rightarrow> element" where
  "attachedMessage messageId =
     \<lparr>children = [UserName (js ''bob''), MessageText (js ''hi''), Timestamp (js ''10:00''),
                  ReactionButton messageId, ReactionsWrapper []],
      data_messageId = Some messageId, data_hasReactions = True\<rparr>"

text \<open>
  A list of entries stands for a \<open>Map\<close> when no key occurs twice (\<open>wellFormed\<close>, at both
  levels).  Two tables hold the same reactions when they have the same messages, the same
  emojis under each message and the same reactor list for each emoji.  Serialising a table as
  an object and reading the object back puts the keys in the enumeration order of object
  properties (\<open>inEnumerationOrder\<close>), which is the order of the table when no key is an
  array index (\<open>noIndexKeys\<close>).  The redraw of all displays raises only where an identity
  has to be derived and cannot be (\<open>redrawSucceeds\<close>); on a page where every container has
  its identity already (\<open>scanned\<close>) none is derived.
\<close>

definition wellFormed :: "MessageReactions \<Rightarrow> bool" where
  "wellFormed mr = (distinct (map fst mr) \<and> list_all (\<lambda>(m, r). distinct (map fst r)) mr)"

definition sameReactions :: "MessageReactions \<Rightarrow> MessageReactions \<Rightarrow> bool" where
  "sameReactions a b = (\<forall>m. map_option map_of (map_of a m) = map_option map_of (map_of b m))"

definition inEnumerationOrder :: "MessageReactions \<Rightarrow> MessageReactions" where
  "inEnumerationOrder mr = map (\<lambda>(m, r). (m, Object_fromEntries r)) (Object_fromEntries mr)"

definition redrawSucceeds :: "manager \<Rightarrow> bool" where
  "redrawSucceeds st =
     list_all (\<lambda>el. case elementMessageId el of Inl err \<Rightarrow> False | Inr m \<Rightarrow> True) (document st)"

definition hasIdentity :: "element \<Rightarrow> bool" where
  "hasIdentity el = (case data_messageId el of None \<Rightarrow> False | Some m \<Rightarrow> m \<noteq> [])"

definition scanned :: "manager \<Rightarrow> bool" where
  "scanned st = list_all hasIdentity (document st)"

definition noIndexKeys :: "MessageReactions \<Rightarrow> bool" where
  "noIndexKeys mr =
     list_all (\<lambda>(m, r). array_index m = None \<and> list_all (\<lambda>(e, us). array_index e = None) r) mr"

definition reactionsObject :: "ReactionSet \<Rightarrow> json" where
  "reactionsObject r = JObj (map (\<lambda>(emoji, users). (emoji, JArr (map JStr users))) (Object_fromEntries r))"

text \<open>The inputs of the examples.\<close>

definition brokenText :: element where
  "brokenText = \<lparr>children = [UserName (js ''bob''), MessageText [0xD83D], Timestamp (js ''10:00'')],
                  data_messageId = None, data_hasReactions = False\<rparr>"

definition claimedPush :: jstring where
  "claimedPush =
     js ''{\"type\":\"update_reactions\",\"data\":{\"reactions\":\"[['' @ [92, 34] @ js ''msg-1''
       @ [92, 34] @ js '',[['' @ [92, 34] @ thumbsUp @ [92, 34] @ js '',['' @ [92, 34]
       @ js ''alice'' @ [92, 34] @ js '']]]]]\"}}''"

definition truncatedFrame :: jstring where
  "truncatedFrame = js ''{\"type\":\"update_reactions\",\"reactions\":''"

definition brokenTable :: jstring where
  "brokenTable = js ''{\"type\":\"update_reactions\",\"reactions\":\"[{oops\"}''"

definition codeUnits :: "jstring \<Rightarrow> bool" where
  "codeUnits s = list_all (\<lambda>c. c < 65536) s"

definition containerTexts :: "element \<Rightarrow> jstring \<times> jstring \<times> jstring" where
  "containerTexts container =
     (textOrEmpty (userNameText (children container)),
      textOrEmpty (messageTextText (children container)),
      textOrEmpty (timestampText (children container)))"

definition plainMessage :: element where
  "plainMessage = \<lparr>children = [HostNode, UserName (js ''bob''), MessageText (js ''hi''),
                                 Timestamp (js ''10:00'')],
                    data_messageId = None, data_hasReactions = False\<rparr>"

definition freshPage :: manager where
  "freshPage = newManager [plainMessage] None (js ''alice'')"

definition storedElsewhere :: manager where
  "storedElsewhere =
     (newManager [plainMessage] None (js ''alice''))
       \<lparr>localStorage :=
          [storageKey (js ''default-session'') \<mapsto>
             JSON_stringify (snapshotObject [(js ''msg-0'', [(thumbsUp, [js ''bob''])])])]\<rparr>"

text \<open>
  The records of a pushed snapshot, read from the words of the interface: a message record
  has a \<open>messageId\<close> and a list of reaction records, each with an \<open>emoji\<close> and the list
  of its \<open>users\<close>.  The table such records give is a \<open>Map\<close> built from them: the keys
  in the order of their first record, each with the value of its last record.
\<close>

fun firstKeys :: "'k list \<Rightarrow> 'k list" where
  "firstKeys [] = []"
| "firstKeys (k # ks) = k # firstKeys (filter (\<lambda>k'. k' \<noteq> k) ks)"

fun latest :: "('k \<times> 'v) list \<Rightarrow> 'k \<Rightarrow> 'v option" where
  "latest [] k = None"
| "latest ((k', v) # es) k =
     (case latest es k of Some v' \<Rightarrow> Some v' | None \<Rightarrow> if k' = k then Some v else None)"

definition entriesTable :: "('k \<times> 'v) list \<Rightarrow> ('k, 'v) jsmap" where
  "entriesTable es = map (\<lambda>k. (k, the (latest es k))) (firstKeys (map fst es))"

definition tableOf :: "(jstring \<times> (jstring \<times> jstring list) list) list \<Rightarrow> MessageReactions" where
  "tableOf recs = entriesTable (map (\<lambda>(messageId, reactions). (messageId, entriesTable reactions)) recs)"

fun isReactionRecord :: "json \<Rightarrow> jstring \<times> jstring list \<Rightarrow> bool" where
  "isReactionRecord (JObj ps) (emoji, users) =
     (map_of ps (js ''emoji'') = Some (JStr emoji)
      \<and> map_of ps (js ''users'') = Some (JArr (map JStr users)))"
| "isReactionRecord v r = False"

fun isMessageRecord :: "json \<Rightarrow> jstring \<times> (jstring \<times> jstring list) list \<Rightarrow> bool" where
  "isMessageRecord (JObj ps) (messageId, reactions) =
     (map_of ps (js ''messageId'') = Some (JStr messageId)
      \<and> (case map_of ps (js ''reactions'') of
            Some (JArr rs) \<Rightarrow> list_all2 isReactionRecord rs reactions
          | _ \<Rightarrow> False))"
| "isMessageRecord v r = False"

fun isRecords :: "json \<Rightarrow> (jstring \<times> (jstring \<times> jstring list) list) list \<Rightarrow> bool" where
  "isRecords (JArr ds) recs = list_all2 isMessageRecord ds recs"
| "isRecords v recs = False"

definition recordsJSON :: "(jstring \<times> (jstring \<times> jstring list) list) list \<Rightarrow> json" where
  "recordsJSON recs =
     JArr (map (\<lambda>(messageId, reactions).
                  JObj [(js ''messageId'', JStr messageId),
                        (js ''reactions'',
                         JArr (map (\<lambda>(emoji, users).
                                      JObj [(js ''emoji'', JStr emoji),
                                            (js ''users'', JArr (map JStr users))])
                                 reactions))])
             recs)"

definition pushFrame :: "(jstring \<times> (jstring \<times> jstring list) list) list \<Rightarrow> jstring" where
  "pushFrame recs =
     JSON_stringify (JObj [(js ''type'', JStr (js ''update_reactions'')),
                           (js ''reactions'', JStr (JSON_stringify (recordsJSON recs)))])"

definition twoRecords :: jstring where
  "twoRecords =
     js ''[{\"messageId\":\"msg-1\",\"reactions\":[{\"emoji\":\"'' @ thumbsUp
       @ js ''\",\"users\":[\"alice\",\"bob\"]},{\"emoji\":\"'' @ heart
       @ js ''\",\"users\":[\"carol\"]}]},{\"messageId\":\"msg-2\",\"reactions\":[]}]''"

definition relayPushTwo :: jstring where
  "relayPushTwo =
     js ''{\"type\":\"update_reactions\",\"reactions\":\"[{'' @ [92, 34]
       @ js ''messageId'' @ [92, 34] @ js '':'' @ [92, 34] @ js ''msg-1'' @ [92, 34]
       @ js '','' @ [92, 34] @ js ''reactions'' @ [92, 34] @ js '':[{'' @ [92, 34]
       @ js ''emoji'' @ [92, 34] @ js '':'' @ [92, 34] @ thumbsUp @ [92, 34] @ js '',''
       @ [92, 34] @ js ''users'' @ [92, 34] @ js '':['' @ [92, 34] @ js ''alice''
       @ [92, 34] @ js '','' @ [92, 34] @ js ''bob'' @ [92, 34] @ js '']},{'' @ [92, 34]
       @ js ''emoji'' @ [92, 34] @ js '':'' @ [92, 34] @ heart @ [92, 34] @ js '',''
       @ [92, 34] @ js ''users'' @ [92, 34] @ js '':['' @ [92, 34] @ js ''carol''
       @ [92, 34] @ js '']}]},{'' @ [92, 34] @ js ''messageId'' @ [92, 34] @ js '':''
       @ [92, 34] @ js ''msg-2'' @ [92, 34] @ js '','' @ [92, 34] @ js ''reactions''
       @ [92, 34] @ js '':[]}]\"}''"


section \<open>Properties of the local reaction store\<close>

lemma reactorList_update:
  "reactorList (map_set m r mr) m e = (case map_get r e of None \<Rightarrow> [] | Some us \<Rightarrow> us)"
  by (simp add: reactorList_def map_set_def map_get_def update_conv')

lemma reactorList_toggle:
  "reactorList (updateLocalReaction m e u mr) m e =
     (if u \<in> set (reactorList mr m e) then filter (\<lambda>user. user \<noteq> u) (reactorList mr m e)
      else reactorList mr m e @ [u])"
  by (auto simp: updateLocalReaction_def Let_def reactorList_def map_set_def map_get_def
      map_delete_def update_conv' delete_conv' split: option.splits)

lemma set_map_set: "set (map_set k v m) \<subseteq> insert (k, v) (set m)"
  unfolding map_set_def by (induction m) auto

lemma set_map_delete: "set (map_delete k m) \<subseteq> set m"
  unfolding map_delete_def by (auto simp: AList.delete_eq)

lemma map_get_in_set: "map_get m k = Some v \<Longrightarrow> (k, v) \<in> set m"
  unfolding map_get_def by (rule map_of_SomeD)

text \<open>
  One toggle changes one reaction set: every entry of the new state is an old entry, or the
  entry of \<open>messageId\<close>, whose reaction set holds old entries and at most one new one.
\<close>

lemma toggle_entries:
  assumes "(m', r') \<in> set (updateLocalReaction m e u mr)" and "(e', us') \<in> set r'"
  shows "(\<exists>r. (m', r) \<in> set mr \<and> (e', us') \<in> set r)
       \<or> (e' = e \<and> u \<notin> set (reactorList mr m e) \<and> us' = reactorList mr m e @ [u])
       \<or> (e' = e \<and> u \<in> set (reactorList mr m e)
            \<and> us' = filter (\<lambda>user. user \<noteq> u) (reactorList mr m e) \<and> us' \<noteq> [])"
proof -
  define reactions where "reactions = (case map_get mr m of Some r \<Rightarrow> r | None \<Rightarrow> [])"
  define users where "users = (case map_get reactions e of Some us \<Rightarrow> us | None \<Rightarrow> [])"
  define new where "new =
     (if u \<in> set users then
        (if filter (\<lambda>user. user \<noteq> u) users = [] then map_delete e reactions
         else map_set e (filter (\<lambda>user. user \<noteq> u) users) reactions)
      else map_set e (users @ [u]) reactions)"
  have upd: "updateLocalReaction m e u mr = map_set m new mr"
    by (simp only: updateLocalReaction_def Let_def reactions_def users_def new_def length_0_conv)
  have users: "users = reactorList mr m e"
    by (simp add: users_def reactions_def reactorList_def map_get_def split: option.splits)
  have old: "(e', us') \<in> set reactions \<Longrightarrow> \<exists>r. (m, r) \<in> set mr \<and> (e', us') \<in> set r"
    by (cases "map_get mr m") (auto simp: reactions_def dest: map_get_in_set)
  from assms(1) upd have "(m', r') \<in> set mr \<or> (m' = m \<and> r' = new)"
    using set_map_set [of m new mr] by auto
  then show ?thesis
  proof
    assume "(m', r') \<in> set mr"
    with assms(2) show ?thesis by blast
  next
    assume eq: "m' = m \<and> r' = new"
    with assms(2) have mem: "(e', us') \<in> set new" by simp
    show ?thesis
    proof (cases "u \<in> set users")
      case False
      with mem have "(e', us') \<in> set reactions \<or> (e' = e \<and> us' = users @ [u])"
        using set_map_set [of e "users @ [u]" reactions] by (auto simp: new_def)
      with False users old eq show ?thesis by auto
    next
      case True
      show ?thesis
      proof (cases "filter (\<lambda>user. user \<noteq> u) users = []")
        case empty: True
        with True mem have "(e', us') \<in> set reactions"
          using set_map_delete [of e reactions] by (auto simp: new_def)
        with old eq show ?thesis by auto
      next
        case nonempty: False
        with True mem have "(e', us') \<in> set reactions
            \<or> (e' = e \<and> us' = filter (\<lambda>user. user \<noteq> u) users)"
          using set_map_set [of e "filter (\<lambda>user. user \<noteq> u) users" reactions]
          by (auto simp: new_def)
        with True nonempty users old eq show ?thesis by auto
      qed
    qed
  qed
qed

lemma noEmptyEntries_iff:
  "noEmptyEntries mr \<longleftrightarrow> (\<forall>m r e us. (m, r) \<in> set mr \<longrightarrow> (e, us) \<in> set r \<longrightarrow> us \<noteq> [])"
  by (fastforce simp: noEmptyEntries_def list_all_iff)

lemma noDuplicateUsers_iff:
  "noDuplicateUsers mr \<longleftrightarrow> (\<forall>m r e us. (m, r) \<in> set mr \<longrightarrow> (e, us) \<in> set r \<longrightarrow> distinct us)"
  by (fastforce simp: noDuplicateUsers_def list_all_iff)

lemma reactorList_cases:
  "reactorList mr m e = [] \<or> (\<exists>r. (m, r) \<in> set mr \<and> (e, reactorList mr m e) \<in> set r)"
  by (cases "map_get mr m"; cases "map_get (the (map_get mr m)) e")
     (auto simp: reactorList_def dest: map_get_in_set)

lemma toggle_noEmptyEntries:
  assumes "noEmptyEntries mr"
  shows "noEmptyEntries (updateLocalReaction m e u mr)"
  unfolding noEmptyEntries_iff
proof (intro allI impI)
  fix m' r' e' us'
  assume "(m', r') \<in> set (updateLocalReaction m e u mr)" and "(e', us') \<in> set r'"
  from toggle_entries [OF this] assms show "us' \<noteq> []"
    by (auto simp: noEmptyEntries_iff)
qed

lemma toggle_noDuplicateUsers:
  assumes "noDuplicateUsers mr"
  shows "noDuplicateUsers (updateLocalReaction m e u mr)"
  unfolding noDuplicateUsers_iff
proof (intro allI impI)
  fix m' r' e' us'
  assume "(m', r') \<in> set (updateLocalReaction m e u mr)" and "(e', us') \<in> set r'"
  moreover have "distinct (reactorList mr m e)"
    using reactorList_cases [of mr m e] assms by (auto simp: noDuplicateUsers_iff)
  ultimately show "distinct us'"
    using toggle_entries [of m' r' m e u mr e' us'] assms
    by (auto simp: noDuplicateUsers_iff)
qed

lemma toggles_noEmptyEntries: "noEmptyEntries mr \<Longrightarrow> noEmptyEntries (toggles ts mr)"
  by (induction ts mr rule: toggles.induct) (simp_all add: toggle_noEmptyEntries)

lemma toggles_noDuplicateUsers: "noDuplicateUsers mr \<Longrightarrow> noDuplicateUsers (toggles ts mr)"
  by (induction ts mr rule: toggles.induct) (simp_all add: toggle_noDuplicateUsers)

text \<open>
  Claim C3, as amended.  Toggling the same (messageId, emoji, userId) twice gives back the
  reactor list of that emoji exactly when the user was not among the reactors before.  When
  the user was among them, the first toggle removes every occurrence and the second appends
  the user at the end: the same users, with userId moved to the last position.
\<close>

theorem C3_toggle_twice:
  "reactorList (updateLocalReaction m e u (updateLocalReaction m e u mr)) m e =
     (if u \<in> set (reactorList mr m e)
      then filter (\<lambda>user. user \<noteq> u) (reactorList mr m e) @ [u]
      else reactorList mr m e)"
proof (cases "u \<in> set (reactorList mr m e)")
  case True
  then show ?thesis by (simp add: reactorList_toggle)
next
  case False
  then have "filter (\<lambda>user. user \<noteq> u) (reactorList mr m e) = reactorList mr m e"
    by (auto simp: filter_id_conv)
  with False show ?thesis by (simp add: reactorList_toggle)
qed

theorem C3_toggle_twice_witness:
  "reactorList (updateLocalReaction (js ''msg-1'') thumbsUp (js ''carol'')
      (updateLocalReaction (js ''msg-1'') thumbsUp (js ''carol'')
         [(js ''msg-1'', [(thumbsUp, [js ''alice'', js ''bob''])])])) (js ''msg-1'') thumbsUp
     = [js ''alice'', js ''bob'']
   \<and> reactorList (updateLocalReaction (js ''msg-1'') thumbsUp (js ''alice'')
      (updateLocalReaction (js ''msg-1'') thumbsUp (js ''alice'')
         [(js ''msg-1'', [(thumbsUp, [js ''alice'', js ''bob''])])])) (js ''msg-1'') thumbsUp
     = [js ''bob'', js ''alice'']"
  using C3_toggle_twice [where u = "js ''carol''" and m = "js ''msg-1''" and e = thumbsUp
      and mr = "[(js ''msg-1'', [(thumbsUp, [js ''alice'', js ''bob''])])]"]
    C3_toggle_twice [where u = "js ''alice''" and m = "js ''msg-1''" and e = thumbsUp
      and mr = "[(js ''msg-1'', [(thumbsUp, [js ''alice'', js ''bob''])])]"]
  by (simp add: reactorList_def map_get_def js_def thumbsUp_def)

text \<open>
  Claim C3 as stated fails: with reactors alice, bob, toggling alice twice leaves bob, alice.
\<close>

theorem C3_counterexample:
  "reactorList (updateLocalReaction (js ''msg-1'') thumbsUp (js ''alice'')
      (updateLocalReaction (js ''msg-1'') thumbsUp (js ''alice'')
         [(js ''msg-1'', [(thumbsUp, [js ''alice'', js ''bob''])])])) (js ''msg-1'') thumbsUp
   \<noteq> reactorList [(js ''msg-1'', [(thumbsUp, [js ''alice'', js ''bob''])])]
        (js ''msg-1'') thumbsUp"
  by (simp add: reactorList_toggle)
     (simp add: reactorList_def map_get_def js_def thumbsUp_def)

text \<open>
  Claim C4, as amended.  Starting from a state with no empty emoji entry, no sequence of
  toggles produces one; and if moreover no reactor list of the starting state holds a user
  twice, none does afterwards.
\<close>

theorem C4_toggles_invariant:
  "noEmptyEntries mr \<Longrightarrow>
     noEmptyEntries (toggles ts mr)
     \<and> (noDuplicateUsers mr \<longrightarrow> noDuplicateUsers (toggles ts mr))"
  by (simp add: toggles_noEmptyEntries toggles_noDuplicateUsers)

theorem C4_toggles_invariant_witness:
  "noEmptyEntries [(js ''msg-1'', [(thumbsUp, [js ''alice''])])]
   \<and> noDuplicateUsers [(js ''msg-1'', [(thumbsUp, [js ''alice''])])]
   \<and> noEmptyEntries (toggles [(js ''msg-1'', thumbsUp, js ''alice''), (js ''msg-2'', heart, js ''bob'')]
         [(js ''msg-1'', [(thumbsUp, [js ''alice''])])])
   \<and> noDuplicateUsers (toggles [(js ''msg-1'', thumbsUp, js ''alice''), (js ''msg-2'', heart, js ''bob'')]
         [(js ''msg-1'', [(thumbsUp, [js ''alice''])])])
   \<and> toggles [(js ''msg-1'', thumbsUp, js ''alice''), (js ''msg-2'', heart, js ''bob'')]
         [(js ''msg-1'', [(thumbsUp, [js ''alice''])])]
       = [(js ''msg-1'', []), (js ''msg-2'', [(heart, [js ''bob''])])]"
proof -
  have h1: "noEmptyEntries [(js ''msg-1'', [(thumbsUp, [js ''alice''])])]"
    by (simp add: noEmptyEntries_def)
  have h2: "noDuplicateUsers [(js ''msg-1'', [(thumbsUp, [js ''alice''])])]"
    by (simp add: noDuplicateUsers_def)
  have run: "toggles [(js ''msg-1'', thumbsUp, js ''alice''), (js ''msg-2'', heart, js ''bob'')]
         [(js ''msg-1'', [(thumbsUp, [js ''alice''])])]
       = [(js ''msg-1'', []), (js ''msg-2'', [(heart, [js ''bob''])])]"
    by (simp add: updateLocalReaction_def map_get_def map_set_def map_delete_def js_def
        thumbsUp_def heart_def)
  from C4_toggles_invariant [OF h1,
      of "[(js ''msg-1'', thumbsUp, js ''alice''), (js ''msg-2'', heart, js ''bob'')]"] h1 h2 run
  show ?thesis by simp
qed

text \<open>
  Claim C4 as stated fails: a state with no empty entry may hold a user twice (the relay's
  snapshot is taken as it comes), and toggles elsewhere leave that list as it is.
\<close>

theorem C4_counterexample:
  "noEmptyEntries [(js ''msg-1'', [(thumbsUp, [js ''alice'', js ''alice''])])]
   \<and> \<not> noDuplicateUsers (toggles [(js ''msg-1'', heart, js ''bob'')]
         [(js ''msg-1'', [(thumbsUp, [js ''alice'', js ''alice''])])])"
  by (simp add: noEmptyEntries_def noDuplicateUsers_def updateLocalReaction_def map_get_def
      map_set_def map_delete_def js_def thumbsUp_def heart_def)

section \<open>Which fields each operation touches\<close>

declare processQueue.simps [simp del]

lemma ws_send_frame:
  "\<exists>s f. snd (ws_send frame st) = st\<lparr>sent := s, sendFaults := f\<rparr>"
proof (cases "sendFaults st")
  case Nil
  then have "snd (ws_send frame st) = st\<lparr>sent := sent st @ [frame], sendFaults := sendFaults st\<rparr>"
    by (simp add: ws_send_def)
  then show ?thesis by blast
next
  case (Cons fault faults)
  then have "snd (ws_send frame st) = st\<lparr>sent := sent st, sendFaults := faults\<rparr>
      \<or> snd (ws_send frame st) = st\<lparr>sent := sent st @ [frame], sendFaults := faults\<rparr>"
    by (simp add: ws_send_def)
  then show ?thesis by blast
qed

lemma sendMessage_frame:
  "\<exists>s f. snd (sendMessage message st) = st\<lparr>sent := s, sendFaults := f\<rparr>"
proof (cases "isConnectionReady st")
  case True
  then show ?thesis using ws_send_frame by (simp add: sendMessage_def)
next
  case False
  then have "snd (sendMessage message st) = st\<lparr>sent := sent st, sendFaults := sendFaults st\<rparr>"
    by (simp add: sendMessage_def)
  then show ?thesis by blast
qed

lemma processQueue_frame:
  "\<exists>q s f c. processQueue st = st\<lparr>messageQueue := q, sent := s, sendFaults := f, console := c\<rparr>"
proof (induction st rule: processQueue.induct)
  case (1 st)
  have same: "st = st\<lparr>messageQueue := messageQueue st, sent := sent st,
      sendFaults := sendFaults st, console := console st\<rparr>" by simp
  show ?case
  proof (cases "isConnectionReady st \<and> length (messageQueue st) > 0")
    case False
    then have "processQueue st = st" by (subst processQueue.simps) simp
    with same show ?thesis by metis
  next
    case True
    then obtain message rest where q: "messageQueue st = message # rest"
      by (cases "messageQueue st") auto
    obtain r st' where sm: "sendMessage message (st\<lparr>messageQueue := rest\<rparr>) = (r, st')"
      by (cases "sendMessage message (st\<lparr>messageQueue := rest\<rparr>)")
    from sendMessage_frame [of message "st\<lparr>messageQueue := rest\<rparr>"] sm
    obtain s f where st': "st' = st\<lparr>messageQueue := rest, sent := s, sendFaults := f\<rparr>"
      by auto
    show ?thesis
    proof (cases r)
      case None
      with True q sm have pq: "processQueue st = processQueue st'"
        by (subst processQueue.simps) simp
      from "1.IH" [OF True q sm [symmetric, unfolded None] refl]
      obtain q' s' f' c' where
        "processQueue st' = st'\<lparr>messageQueue := q', sent := s', sendFaults := f', console := c'\<rparr>"
        by blast
      with pq st' have "processQueue st
          = st\<lparr>messageQueue := q', sent := s', sendFaults := f', console := c'\<rparr>"
        by simp
      then show ?thesis by blast
    next
      case (Some err)
      with True q sm have "processQueue st
          = console_log ''Failed to send message'' (st'\<lparr>messageQueue := message # messageQueue st'\<rparr>)"
        by (subst processQueue.simps) simp
      with st' have "processQueue st = st\<lparr>messageQueue := message # rest, sent := s,
           sendFaults := f, console := console st @ [''Failed to send message'']\<rparr>"
        by (simp add: console_log_def)
      then show ?thesis by blast
    qed
  qed
qed


lemma updateReactionDisplay_frame:
  "\<exists>c. snd (updateReactionDisplay messageId st) = st\<lparr>console := c\<rparr>"
proof (cases "actualUserName st = []")
  case True
  then have "snd (updateReactionDisplay messageId st)
      = st\<lparr>console := console st @ [''User name is not defined'']\<rparr>"
    by (simp add: updateReactionDisplay_def console_log_def)
  then show ?thesis by blast
next
  case False
  then have "snd (updateReactionDisplay messageId st) = st\<lparr>console := console st\<rparr>"
    by (simp add: updateReactionDisplay_def)
  then show ?thesis by blast
qed

lemma updateAllLoop_frame:
  "\<exists>d c. snd (updateAllLoop done els st) = st\<lparr>document := d, console := c\<rparr>"
proof (induction els arbitrary: "done" st)
  case Nil
  have "snd (updateAllLoop done [] st) = st\<lparr>document := done, console := console st\<rparr>"
    by simp
  then show ?case by blast
next
  case (Cons el els)
  show ?case
  proof (cases "elementMessageId el")
    case (Inl err)
    then have "snd (updateAllLoop done (el # els) st)
        = st\<lparr>document := done @ el # els, console := console st\<rparr>"
      by simp
    then show ?thesis by blast
  next
    case (Inr messageId)
    show ?thesis
    proof (cases "map_has (messageReactions st) messageId")
      case False
      with Inr have "snd (updateAllLoop done (el # els) st)
          = snd (updateAllLoop (done @ [el\<lparr>data_messageId := Some messageId\<rparr>]) els st)"
        by (simp add: Let_def)
      with Cons.IH show ?thesis by simp
    next
      case True
      obtain badges st' where urd: "updateReactionDisplay messageId st = (badges, st')"
        by (cases "updateReactionDisplay messageId st")
      with updateReactionDisplay_frame [of messageId st]
      obtain c where st': "st' = st\<lparr>console := c\<rparr>" by auto
      from Inr True urd have "snd (updateAllLoop done (el # els) st)
          = snd (updateAllLoop
                  (done @ [el\<lparr>data_messageId := Some messageId,
                              children := map ReactionBadge badges, data_hasReactions := True\<rparr>])
                  els st')"
        by (simp add: Let_def)
      moreover from Cons.IH obtain d c' where
        "snd (updateAllLoop
                  (done @ [el\<lparr>data_messageId := Some messageId,
                              children := map ReactionBadge badges, data_hasReactions := True\<rparr>])
                  els st') = st'\<lparr>document := d, console := c'\<rparr>"
        by blast
      ultimately have "snd (updateAllLoop done (el # els) st) = st\<lparr>document := d, console := c'\<rparr>"
        using st' by simp
      then show ?thesis by blast
    qed
  qed
qed

lemma updateAllReactionDisplays_frame:
  "\<exists>d c. snd (updateAllReactionDisplays st) = st\<lparr>document := d, console := c\<rparr>"
  unfolding updateAllReactionDisplays_def by (rule updateAllLoop_frame)

lemma updateAllReactionDisplays_messageReactions:
  "messageReactions (snd (updateAllReactionDisplays st)) = messageReactions st"
  using updateAllReactionDisplays_frame [of st] by auto


lemma conn_updates [simp]:
  "conn (st\<lparr>messageReactions := mr\<rparr>) = conn st"
  "conn (st\<lparr>messageQueue := q\<rparr>) = conn st"
  "conn (st\<lparr>ws := w\<rparr>) = conn st"
  "conn (st\<lparr>document := d\<rparr>) = conn st"
  "conn (st\<lparr>localStorage := l\<rparr>) = conn st"
  "conn (st\<lparr>sent := s\<rparr>) = conn st"
  "conn (st\<lparr>sendFaults := f\<rparr>) = conn st"
  "conn (st\<lparr>console := c\<rparr>) = conn st"
  "conn (st\<lparr>outsideTypes := t\<rparr>) = conn st"
  by (simp_all add: conn_def)

lemma conn_console_log [simp]: "conn (console_log line st) = conn st"
  by (simp add: console_log_def)

lemma conn_processQueue [simp]: "conn (processQueue st) = conn st"
  using processQueue_frame [of st] by auto

lemma conn_sendMessage [simp]: "conn (snd (sendMessage message st)) = conn st"
  using sendMessage_frame [of message st] by auto

lemma conn_ws_send [simp]: "conn (snd (ws_send frame st)) = conn st"
  using ws_send_frame [of frame st] by auto

lemma conn_updateReactionDisplay [simp]: "conn (snd (updateReactionDisplay messageId st)) = conn st"
  using updateReactionDisplay_frame [of messageId st] by auto

lemma conn_updateAllReactionDisplays [simp]: "conn (snd (updateAllReactionDisplays st)) = conn st"
  using updateAllReactionDisplays_frame [of st] by auto

lemma updateMessageReactions_frame:
  "\<exists>d c t. snd (updateMessageReactions messageId st)
      = st\<lparr>document := d, console := c, outsideTypes := t\<rparr>"
proof -
  have same: "st = st\<lparr>document := document st, console := console st,
      outsideTypes := outsideTypes st\<rparr>" by simp
  show ?thesis
  proof (cases "messageSelector messageId")
    case InvalidSelector
    then have "snd (updateMessageReactions messageId st) = st"
      by (simp add: updateMessageReactions_def)
    with same show ?thesis by metis
  next
    case BeyondString
    then have "snd (updateMessageReactions messageId st)
        = st\<lparr>document := document st, console := console st, outsideTypes := True\<rparr>"
      by (simp add: updateMessageReactions_def)
    then show ?thesis by blast
  next
    case (Value v)
    show ?thesis
    proof (cases "list_ex (\<lambda>el. data_messageId el = Some v) (document st)")
      case False
      with Value have "snd (updateMessageReactions messageId st) = st"
        by (simp add: updateMessageReactions_def)
      with same show ?thesis by metis
    next
      case True
      obtain badges st' where d: "updateReactionDisplay messageId st = (badges, st')"
        by (cases "updateReactionDisplay messageId st")
      with updateReactionDisplay_frame [of messageId st]
      obtain c where "st' = st\<lparr>console := c\<rparr>" by auto
      with Value True d have "snd (updateMessageReactions messageId st)
          = st\<lparr>document := updateFirstElement v
                (\<lambda>el. el\<lparr>children :=
                   fillFirstContainer badges (ensureReactionsContainer (children el))\<rparr>)
                (document st),
              console := c, outsideTypes := outsideTypes st\<rparr>"
        by (intro manager.equality) (simp_all add: updateMessageReactions_def)
      then show ?thesis by blast
    qed
  qed
qed

lemma conn_updateMessageReactions [simp]:
  "conn (snd (updateMessageReactions messageId st)) = conn st"
  using updateMessageReactions_frame [of messageId st] by (auto simp: conn_def)

lemma conn_saveToLocalStorage [simp]: "conn (saveToLocalStorage sessionToken st) = conn st"
  by (simp add: saveToLocalStorage_def)

lemma conn_updateFromText [simp]: "conn (updateFromText s st) = conn st"
proof -
  have redraw: "conn (case updateAllReactionDisplays (st\<lparr>messageReactions := mr\<rparr>) of
                        (None, st') \<Rightarrow> st'
                      | (Some err, st') \<Rightarrow> updateFailed st')
                 = conn st" for mr
  proof (cases "updateAllReactionDisplays (st\<lparr>messageReactions := mr\<rparr>)")
    case (Pair r st')
    with conn_updateAllReactionDisplays [of "st\<lparr>messageReactions := mr\<rparr>"]
    show ?thesis by (cases r) (simp_all add: updateFailed_def)
  qed
  then show ?thesis
    by (simp add: updateFromText_def updateFailed_def split: option.split decoded.split)
qed

lemma conn_updateReactionsState [simp]: "conn (updateReactionsState reactionsData st) = conn st"
  by (simp add: updateReactionsState_def updateFailed_def split: option.split json.split)

lemma conn_handleWebSocketMessage [simp]: "conn (handleWebSocketMessage eventData st) = conn st"
  unfolding handleWebSocketMessage_def by (simp split: option.split json.split)

lemma conn_sendReactionUpdate [simp]:
  "conn (snd (sendReactionUpdate messageId emoji userId st)) = conn st"
  by (simp add: sendReactionUpdate_def Let_def queueMessage_def)

lemma conn_addReaction [simp]: "conn (addReaction messageId emoji st) = conn st"
proof (cases "sendReactionUpdate messageId emoji (actualUserName st) st")
  case (Pair r st')
  note sru = this
  with conn_sendReactionUpdate [of messageId emoji "actualUserName st" st]
  have c: "conn st' = conn st" by simp
  show ?thesis
  proof (cases r)
    case (Some err)
    with sru c show ?thesis by (simp add: addReaction_def Let_def)
  next
    case None
    let ?st1 = "st'\<lparr>messageReactions :=
        updateLocalReaction messageId emoji (actualUserName st) (messageReactions st')\<rparr>"
    obtain r2 st2 where u: "updateMessageReactions messageId ?st1 = (r2, st2)"
      by (cases "updateMessageReactions messageId ?st1")
    with conn_updateMessageReactions [of messageId ?st1] c have "conn st2 = conn st" by simp
    with sru None u show ?thesis by (cases r2) (simp_all add: addReaction_def Let_def)
  qed
qed

lemma conn_addReactionButton [simp]: "conn (snd (snd (addReactionButton el st))) = conn st"
proof (cases "generateMessageId el")
  case (Inl err)
  then show ?thesis by (simp add: addReactionButton_def)
next
  case (Inr messageId)
  let ?st1 = "if \<not> map_has (messageReactions st) messageId
              then st\<lparr>messageReactions := map_set messageId [] (messageReactions st)\<rparr> else st"
  obtain badges st2 where urd: "updateReactionDisplay messageId ?st1 = (badges, st2)"
    by (cases "updateReactionDisplay messageId ?st1")
  with conn_updateReactionDisplay [of messageId ?st1] have "conn st2 = conn st" by simp
  with Inr urd show ?thesis by (simp add: addReactionButton_def Let_def)
qed

lemma conn_checkLoop [simp]: "conn (snd (checkLoop done els st)) = conn st"
proof (induction els arbitrary: "done" st)
  case Nil
  then show ?case by simp
next
  case (Cons el els)
  show ?case
  proof (cases "data_hasReactions el")
    case True
    with Cons.IH show ?thesis by simp
  next
    case False
    obtain r el' st' where arb: "addReactionButton el st = (r, el', st')"
      by (cases "addReactionButton el st") auto
    with conn_addReactionButton [of el st] have "conn st' = conn st" by simp
    with False arb Cons.IH [of "done @ [el']" st'] show ?thesis by (cases r) simp_all
  qed
qed

lemma conn_checkAndAddReactionButtons [simp]:
  "conn (snd (checkAndAddReactionButtons st)) = conn st"
  by (simp add: checkAndAddReactionButtons_def)


section \<open>Reconnection\<close>

lemma conn_handleReconnection:
  "conn (handleReconnection tok st) =
     (if reconnectAttempts st < 5
      then (reconnectAttempts st + 1, reconnectTimers st + 1, connectCalls st)
      else conn st)"
  by (simp add: handleReconnection_def maxReconnectAttempts_def conn_def console_log_def)

lemma conn_step_failure:
  assumes "ev = WsClose \<or> ev = WsError"
  shows "conn (step tok ev st) =
     (if reconnectAttempts st < 5
      then (reconnectAttempts st + 1, reconnectTimers st + 1, connectCalls st)
      else conn st)"
  using assms
  by (auto simp: onclose_def onerror_def conn_handleReconnection)
     (simp_all add: conn_def console_log_def)

lemma conn_step_timer:
  "conn (step tok ReconnectTimer st) =
     (if reconnectTimers st > 0
      then (reconnectAttempts st, reconnectTimers st - 1, connectCalls st + 1)
      else conn st)"
  by (simp add: conn_def connectWebSocket_def)

lemma conn_step_other:
  assumes "ev \<noteq> WsOpen" "ev \<noteq> WsClose" "ev \<noteq> WsError" "ev \<noteq> ReconnectTimer"
  shows "conn (step tok ev st) = conn st"
  using assms by (cases ev) simp_all

lemma reconnectAttempts_onopen: "reconnectAttempts (onopen tok st) = 0"
proof -
  let ?st1 = "(console_log ''WebSocket connected'' st)\<lparr>reconnectAttempts := 0\<rparr>"
  have c1: "conn ?st1 = (0, reconnectTimers st, connectCalls st)"
    by (simp add: conn_def console_log_def)
  obtain r st2 where sis: "sendInitialState tok ?st1 = (r, st2)"
    by (cases "sendInitialState tok ?st1")
  have "conn (snd (sendInitialState tok ?st1)) = conn ?st1"
    by (simp add: sendInitialState_def)
  with sis c1 have c2: "conn st2 = (0, reconnectTimers st, connectCalls st)" by simp
  have "conn (onopen tok st) = (0, reconnectTimers st, connectCalls st)"
    using sis c2 by (cases r) (simp_all add: onopen_def Let_def)
  then show ?thesis by (simp add: conn_def)
qed

lemma run_append: "run tok (evs @ evs') st = run tok evs' (run tok evs st)"
  by (induction evs arbitrary: st) simp_all

lemma run_counters:
  assumes "WsOpen \<notin> set evs" and "reconnectAttempts st \<le> 5"
  shows "reconnectAttempts (run tok evs st) = min 5 (reconnectAttempts st + failures evs)
       \<and> reconnectTimers (run tok evs st) + connectCalls (run tok evs st) + reconnectAttempts st
           = reconnectTimers st + connectCalls st + min 5 (reconnectAttempts st + failures evs)
       \<and> connectCalls st \<le> connectCalls (run tok evs st)"
  using assms
proof (induction evs arbitrary: st)
  case Nil
  then show ?case by (simp add: failures_def)
next
  case (Cons ev evs)
  from Cons.prems have noopen: "WsOpen \<notin> set evs" and ev: "ev \<noteq> WsOpen" by auto
  consider (fail) "ev = WsClose \<or> ev = WsError" | (timer) "ev = ReconnectTimer"
    | (other) "ev \<noteq> WsOpen" "ev \<noteq> WsClose" "ev \<noteq> WsError" "ev \<noteq> ReconnectTimer"
    using ev by blast
  then show ?case
  proof cases
    case fail
    from conn_step_failure [OF fail, of tok st]
    have a: "reconnectAttempts (step tok ev st) = min 5 (reconnectAttempts st + 1)"
      and t: "reconnectTimers (step tok ev st)
                = reconnectTimers st + (min 5 (reconnectAttempts st + 1) - reconnectAttempts st)"
      and c: "connectCalls (step tok ev st) = connectCalls st"
      using Cons.prems(2) by (auto simp: conn_def split: if_splits)
    have f: "failures (ev # evs) = Suc (failures evs)"
      using fail by (auto simp: failures_def)
    have le: "reconnectAttempts (step tok ev st) \<le> 5" using a by simp
    from Cons.IH [OF noopen le] a t c f Cons.prems(2) show ?thesis
      by (auto simp: min_def split: if_splits)
  next
    case timer
    from conn_step_timer [of tok st]
    have a: "reconnectAttempts (step tok ev st) = reconnectAttempts st"
      and tc: "reconnectTimers (step tok ev st) + connectCalls (step tok ev st)
                = reconnectTimers st + connectCalls st"
      and c: "connectCalls st \<le> connectCalls (step tok ev st)"
      using timer by (auto simp: conn_def split: if_splits)
    have f: "failures (ev # evs) = failures evs"
      using timer by (simp add: failures_def)
    have le: "reconnectAttempts (step tok ev st) \<le> 5" using a Cons.prems(2) by simp
    from Cons.IH [OF noopen le] a tc c f show ?thesis by simp
  next
    case other
    from conn_step_other [OF other, of tok st]
    have a: "reconnectAttempts (step tok ev st) = reconnectAttempts st"
      and t: "reconnectTimers (step tok ev st) = reconnectTimers st"
      and c: "connectCalls (step tok ev st) = connectCalls st"
      by (auto simp: conn_def)
    have f: "failures (ev # evs) = failures evs"
      using other by (simp add: failures_def)
    have le: "reconnectAttempts (step tok ev st) \<le> 5" using a Cons.prems(2) by simp
    from Cons.IH [OF noopen le] a t c f show ?thesis by simp
  qed
qed

text \<open>
  Claim C5.  At most five reconnection attempts follow the last successful open.  Along any
  sequence of events without an open, starting with the counter at zero and no timer set,
  the counter is the number of close and error events, capped at five, and so is the number
  of reconnection timers ever set (those still set plus those that fired and called
  \<open>connectWebSocket\<close>); \<open>connectWebSocket\<close> is called at most five times.  Below five
  failures a further close or error raises the counter and sets one timer; from five on it
  changes neither the counter nor the timers nor the calls.  An open resets the counter.
\<close>

theorem C5_reconnect_bound:
  assumes "WsOpen \<notin> set evs" and "reconnectAttempts st = 0" and "reconnectTimers st = 0"
  shows "reconnectAttempts (run tok evs st) = min 5 (failures evs)
       \<and> reconnectTimers (run tok evs st) + (connectCalls (run tok evs st) - connectCalls st)
           = min 5 (failures evs)
       \<and> connectCalls (run tok evs st) \<le> connectCalls st + 5
       \<and> (\<forall>ev. ev = WsClose \<or> ev = WsError \<longrightarrow>
             (if failures evs < 5
              then reconnectAttempts (step tok ev (run tok evs st)) = failures evs + 1
                 \<and> reconnectTimers (step tok ev (run tok evs st))
                     = reconnectTimers (run tok evs st) + 1
              else reconnectAttempts (step tok ev (run tok evs st)) = 5
                 \<and> reconnectTimers (step tok ev (run tok evs st))
                     = reconnectTimers (run tok evs st)
                 \<and> connectCalls (step tok ev (run tok evs st))
                     = connectCalls (run tok evs st)))
       \<and> reconnectAttempts (step tok WsOpen (run tok evs st)) = 0"
proof -
  from run_counters [OF assms(1), of st tok] assms(2,3)
  have a: "reconnectAttempts (run tok evs st) = min 5 (failures evs)"
    and s: "reconnectTimers (run tok evs st) + connectCalls (run tok evs st)
              = connectCalls st + min 5 (failures evs)"
    and c: "connectCalls st \<le> connectCalls (run tok evs st)"
    by simp_all
  have "\<forall>ev. ev = WsClose \<or> ev = WsError \<longrightarrow>
             (if failures evs < 5
              then reconnectAttempts (step tok ev (run tok evs st)) = failures evs + 1
                 \<and> reconnectTimers (step tok ev (run tok evs st))
                     = reconnectTimers (run tok evs st) + 1
              else reconnectAttempts (step tok ev (run tok evs st)) = 5
                 \<and> reconnectTimers (step tok ev (run tok evs st))
                     = reconnectTimers (run tok evs st)
                 \<and> connectCalls (step tok ev (run tok evs st))
                     = connectCalls (run tok evs st))"
  proof (intro allI impI)
    fix ev assume "ev = WsClose \<or> ev = WsError"
    from conn_step_failure [OF this, of tok "run tok evs st"] a
    show "if failures evs < 5
              then reconnectAttempts (step tok ev (run tok evs st)) = failures evs + 1
                 \<and> reconnectTimers (step tok ev (run tok evs st))
                     = reconnectTimers (run tok evs st) + 1
              else reconnectAttempts (step tok ev (run tok evs st)) = 5
                 \<and> reconnectTimers (step tok ev (run tok evs st))
                     = reconnectTimers (run tok evs st)
                 \<and> connectCalls (step tok ev (run tok evs st))
                     = connectCalls (run tok evs st)"
      by (auto simp: conn_def min_def split: if_splits)
  qed
  moreover have "reconnectAttempts (step tok WsOpen (run tok evs st)) = 0"
    by (simp add: reconnectAttempts_onopen)
  ultimately show ?thesis using a s c by auto
qed

theorem C5_reconnect_bound_witness:
  "WsOpen \<notin> set [WsError, WsClose, ReconnectTimer, WsClose, WsMessage (js ''{''), WsError,
       WsClose, ReconnectTimer, WsClose, WsError, ReconnectTimer]
   \<and> reconnectAttempts (newManager [] None (js ''alice'')) = 0
   \<and> reconnectTimers (newManager [] None (js ''alice'')) = 0
   \<and> reconnectAttempts (run (js ''default-session'')
         [WsError, WsClose, ReconnectTimer, WsClose, WsMessage (js ''{''), WsError,
          WsClose, ReconnectTimer, WsClose, WsError, ReconnectTimer]
         (newManager [] None (js ''alice''))) = 5
   \<and> connectCalls (run (js ''default-session'')
         [WsError, WsClose, ReconnectTimer, WsClose, WsMessage (js ''{''), WsError,
          WsClose, ReconnectTimer, WsClose, WsError, ReconnectTimer]
         (newManager [] None (js ''alice''))) \<le> 5"
  using C5_reconnect_bound [of
      "[WsError, WsClose, ReconnectTimer, WsClose, WsMessage (js ''{''), WsError,
        WsClose, ReconnectTimer, WsClose, WsError, ReconnectTimer]"
      "newManager [] None (js ''alice'')" "js ''default-session''"]
  by (simp add: failures_def newManager_def)


section \<open>The outbound queue\<close>

lemma processQueue_not_ready: "\<not> isConnectionReady st \<Longrightarrow> processQueue st = st"
  by (subst processQueue.simps) simp

lemma processQueue_empty: "messageQueue st = [] \<Longrightarrow> processQueue st = st"
  by (subst processQueue.simps) simp

lemma processQueue_step_ok:
  assumes "isConnectionReady st" and "messageQueue st = message # rest"
    and "sendFaults st = [] \<or> (\<exists>faults. sendFaults st = False # faults)"
  shows "\<exists>st'. processQueue st = processQueue st'
     \<and> isConnectionReady st' \<and> messageQueue st' = rest
     \<and> sent st' = sent st @ [JSON_stringify (messageJSON message)]
     \<and> sendFaults st' = tl (sendFaults st) \<and> console st' = console st
     \<and> messageReactions st' = messageReactions st"
proof -
  obtain r st' where sm: "sendMessage message (st\<lparr>messageQueue := rest\<rparr>) = (r, st')"
    by (cases "sendMessage message (st\<lparr>messageQueue := rest\<rparr>)")
  from assms(1) have "ws_send (JSON_stringify (messageJSON message)) (st\<lparr>messageQueue := rest\<rparr>)
      = (r, st')"
    using sm by (simp add: sendMessage_def isConnectionReady_def)
  with assms have r: "r = None" and fields: "isConnectionReady st' \<and> messageQueue st' = rest
     \<and> sent st' = sent st @ [JSON_stringify (messageJSON message)]
     \<and> sendFaults st' = tl (sendFaults st) \<and> console st' = console st
     \<and> messageReactions st' = messageReactions st"
    by (auto simp: ws_send_def isConnectionReady_def)
  from assms sm r have "processQueue st = processQueue st'"
    by (subst processQueue.simps) simp
  with fields show ?thesis by blast
qed

lemma processQueue_step_fault:
  assumes "isConnectionReady st" and "messageQueue st = message # rest"
    and "sendFaults st = True # faults"
  shows "messageQueue (processQueue st) = message # rest
     \<and> sent (processQueue st) = sent st
     \<and> sendFaults (processQueue st) = faults
     \<and> console (processQueue st) = console st @ [''Failed to send message'']"
proof -
  from assms have "sendMessage message (st\<lparr>messageQueue := rest\<rparr>)
      = (Some SendFailure, st\<lparr>messageQueue := rest, sendFaults := faults\<rparr>)"
    by (simp add: sendMessage_def ws_send_def isConnectionReady_def)
  with assms have "processQueue st = console_log ''Failed to send message''
      (st\<lparr>messageQueue := rest, sendFaults := faults, messageQueue := message # rest\<rparr>)"
    by (subst processQueue.simps) simp
  then show ?thesis by (simp add: console_log_def)
qed

lemma drain_all:
  assumes "isConnectionReady st" and "True \<notin> set (take (length (messageQueue st)) (sendFaults st))"
  shows "messageQueue (processQueue st) = []
     \<and> sent (processQueue st) = sent st @ framesOf (messageQueue st)
     \<and> sendFaults (processQueue st) = drop (length (messageQueue st)) (sendFaults st)
     \<and> console (processQueue st) = console st"
  using assms
proof (induction "messageQueue st" arbitrary: st)
  case Nil
  then show ?case by (simp add: processQueue_empty framesOf_def)
next
  case (Cons message rest)
  from Cons.hyps(2) have q: "messageQueue st = message # rest" by simp
  from Cons.prems(2) q have f: "sendFaults st = [] \<or> (\<exists>faults. sendFaults st = False # faults)"
    by (cases "sendFaults st") auto
  from processQueue_step_ok [OF Cons.prems(1) q f]
  obtain st' where st': "processQueue st = processQueue st'" "isConnectionReady st'"
      "messageQueue st' = rest" "sent st' = sent st @ [JSON_stringify (messageJSON message)]"
      "sendFaults st' = tl (sendFaults st)" "console st' = console st"
    by blast
  from Cons.prems(2) q st'(3,5) have "True \<notin> set (take (length (messageQueue st')) (sendFaults st'))"
    by (cases "sendFaults st") auto
  from Cons.hyps(1) [OF st'(3) [symmetric] st'(2) this] st' q show ?case
    by (simp add: framesOf_def drop_Suc)
qed

lemma drain_until_fault:
  assumes "isConnectionReady st" and "sendFaults st = replicate k False @ True # faults"
    and "k < length (messageQueue st)"
  shows "messageQueue (processQueue st) = drop k (messageQueue st)
     \<and> sent (processQueue st) = sent st @ framesOf (take k (messageQueue st))
     \<and> sendFaults (processQueue st) = faults
     \<and> console (processQueue st) = console st @ [''Failed to send message'']"
  using assms
proof (induction k arbitrary: st)
  case 0
  then obtain message rest where q: "messageQueue st = message # rest"
    by (cases "messageQueue st") auto
  from processQueue_step_fault [OF "0.prems"(1) q] "0.prems"(2) q show ?case
    by (simp add: framesOf_def)
next
  case (Suc k)
  then obtain message rest where q: "messageQueue st = message # rest"
    by (cases "messageQueue st") auto
  from Suc.prems(2) have f: "sendFaults st = [] \<or> (\<exists>fs. sendFaults st = False # fs)" by simp
  from processQueue_step_ok [OF Suc.prems(1) q f]
  obtain st' where st': "processQueue st = processQueue st'" "isConnectionReady st'"
      "messageQueue st' = rest" "sent st' = sent st @ [JSON_stringify (messageJSON message)]"
      "sendFaults st' = tl (sendFaults st)" "console st' = console st"
    by blast
  from Suc.prems(2) st'(5) have f': "sendFaults st' = replicate k False @ True # faults" by simp
  from Suc.prems(3) q st'(3) have k: "k < length (messageQueue st')" by simp
  from Suc.IH [OF st'(2) f' k] st' q show ?case by (simp add: framesOf_def)
qed

lemma queueAll_not_ready:
  assumes "\<not> isConnectionReady st"
  shows "queueAll ms st = st\<lparr>messageQueue := messageQueue st @ ms\<rparr>"
  using assms
proof (induction ms arbitrary: st)
  case Nil
  then show ?case by (simp add: queueAll_def)
next
  case (Cons message ms)
  let ?st1 = "st\<lparr>messageQueue := messageQueue st @ [message]\<rparr>"
  from Cons.prems have nr: "\<not> isConnectionReady ?st1" by (simp add: isConnectionReady_def)
  then have q1: "queueMessage message st = ?st1"
    by (simp add: queueMessage_def processQueue_not_ready)
  have "queueAll (message # ms) st = queueAll ms (queueMessage message st)"
    by (simp add: queueAll_def)
  with q1 Cons.IH [OF nr] show ?case by simp
qed

lemma onopen_drains:
  assumes "ws st = Some OPEN" and "True \<notin> set (sendFaults st)"
  shows "messageQueue (onopen tok st) = []
     \<and> sent (onopen tok st)
         = sent st @ [initialStateFrame tok (messageReactions st)] @ framesOf (messageQueue st)"
proof -
  let ?st1 = "(console_log ''WebSocket connected'' st)\<lparr>reconnectAttempts := 0\<rparr>"
  obtain r st2 where sis: "sendInitialState tok ?st1 = (r, st2)"
    by (cases "sendInitialState tok ?st1")
  from assms sis have r: "r = None"
    by (cases "sendFaults st")
       (auto simp: sendInitialState_def ws_send_def console_log_def)
  from assms sis have st2: "isConnectionReady st2" "messageQueue st2 = messageQueue st"
      "sent st2 = sent st @ [initialStateFrame tok (messageReactions st)]"
      "sendFaults st2 = tl (sendFaults st)"
    by (cases "sendFaults st";
        auto simp: sendInitialState_def ws_send_def console_log_def isConnectionReady_def
          initialStateFrame_def)+
  from assms(2) st2(4) have "True \<notin> set (take (length (messageQueue st2)) (sendFaults st2))"
    by (cases "sendFaults st") (auto dest: in_set_takeD)
  from drain_all [OF st2(1) this] st2 have
    "messageQueue (processQueue st2) = []
     \<and> sent (processQueue st2)
         = sent st @ [initialStateFrame tok (messageReactions st)] @ framesOf (messageQueue st)"
    by simp
  moreover from sis r have "onopen tok st = processQueue st2"
    by (simp add: onopen_def Let_def)
  ultimately show ?thesis by simp
qed

text \<open>
  Claim C8.  The queue is drained from its head while the connection is open.  A message
  whose send succeeds is removed and its frame sent; at the first send that fails the message
  is put back at the head and the drain stops with the rest of the
  queue in order and the later messages untouched.  A message queued on a connection that is
  not open stays in the queue, behind the ones queued before it.  When the connection opens
  and no send fails, the initial full-state frame is sent first and then the frames of the
  queued messages in the order they were queued, and the queue is empty.
\<close>

theorem C8_queue:
  "queueMessage message st = processQueue (st\<lparr>messageQueue := messageQueue st @ [message]\<rparr>)
   \<and> (\<not> isConnectionReady st \<longrightarrow> processQueue st = st)
   \<and> (isConnectionReady st \<and> sendFaults st = replicate k False @ True # faults
        \<and> k < length (messageQueue st) \<longrightarrow>
          messageQueue (processQueue st) = drop k (messageQueue st)
        \<and> sent (processQueue st) = sent st @ framesOf (take k (messageQueue st))
        \<and> sendFaults (processQueue st) = faults)
   \<and> (isConnectionReady st \<and> True \<notin> set (take (length (messageQueue st)) (sendFaults st)) \<longrightarrow>
          messageQueue (processQueue st) = []
        \<and> sent (processQueue st) = sent st @ framesOf (messageQueue st))
   \<and> (\<not> isConnectionReady st \<and> True \<notin> set (sendFaults st) \<longrightarrow>
          messageQueue (queueAll ms st) = messageQueue st @ ms
        \<and> sent (queueAll ms st) = sent st
        \<and> messageQueue (step tok WsOpen (queueAll ms st)) = []
        \<and> sent (step tok WsOpen (queueAll ms st))
            = sent st @ [initialStateFrame tok (messageReactions st)]
                @ framesOf (messageQueue st @ ms))"
proof (intro conjI impI)
  show "queueMessage message st = processQueue (st\<lparr>messageQueue := messageQueue st @ [message]\<rparr>)"
    by (simp add: queueMessage_def)
next
  assume "\<not> isConnectionReady st"
  then show "processQueue st = st" by (rule processQueue_not_ready)
next
  assume a: "isConnectionReady st \<and> sendFaults st = replicate k False @ True # faults
        \<and> k < length (messageQueue st)"
  then have d: "messageQueue (processQueue st) = drop k (messageQueue st)
     \<and> sent (processQueue st) = sent st @ framesOf (take k (messageQueue st))
     \<and> sendFaults (processQueue st) = faults
     \<and> console (processQueue st) = console st @ [''Failed to send message'']"
    by (intro drain_until_fault) simp_all
  from d show "messageQueue (processQueue st) = drop k (messageQueue st)" by simp
  from d show "sent (processQueue st) = sent st @ framesOf (take k (messageQueue st))" by simp
  from d show "sendFaults (processQueue st) = faults" by simp
next
  assume a: "isConnectionReady st \<and> True \<notin> set (take (length (messageQueue st)) (sendFaults st))"
  then have d: "messageQueue (processQueue st) = []
     \<and> sent (processQueue st) = sent st @ framesOf (messageQueue st)
     \<and> sendFaults (processQueue st) = drop (length (messageQueue st)) (sendFaults st)
     \<and> console (processQueue st) = console st"
    by (intro drain_all) simp_all
  from d show "messageQueue (processQueue st) = []" by simp
  from d show "sent (processQueue st) = sent st @ framesOf (messageQueue st)" by simp
next
  assume a: "\<not> isConnectionReady st \<and> True \<notin> set (sendFaults st)"
  then have qa: "queueAll ms st = st\<lparr>messageQueue := messageQueue st @ ms\<rparr>"
    by (simp add: queueAll_not_ready)
  from qa show "messageQueue (queueAll ms st) = messageQueue st @ ms" by simp
  from qa show "sent (queueAll ms st) = sent st" by simp
  let ?st = "(queueAll ms st)\<lparr>ws := Some OPEN\<rparr>"
  from a qa have o: "ws ?st = Some OPEN" "True \<notin> set (sendFaults ?st)" by simp_all
  from onopen_drains [OF o, of tok] qa
  show "messageQueue (step tok WsOpen (queueAll ms st)) = []"
    and "sent (step tok WsOpen (queueAll ms st))
            = sent st @ [initialStateFrame tok (messageReactions st)]
                @ framesOf (messageQueue st @ ms)"
    by simp_all
qed


theorem C8_queue_witness:
  "\<not> isConnectionReady (newManager [] None (js ''alice''))
   \<and> True \<notin> set (sendFaults (newManager [] None (js ''alice'')))
   \<and> messageQueue (queueAll [ReactionUpdate (js ''msg-1'') thumbsUp (js ''alice'') Add,
                                ReactionUpdate (js ''msg-2'') heart (js ''alice'') Add]
                      (newManager [] None (js ''alice'')))
       = [ReactionUpdate (js ''msg-1'') thumbsUp (js ''alice'') Add,
          ReactionUpdate (js ''msg-2'') heart (js ''alice'') Add]
   \<and> sent (step (js ''default-session'') WsOpen
              (queueAll [ReactionUpdate (js ''msg-1'') thumbsUp (js ''alice'') Add,
                         ReactionUpdate (js ''msg-2'') heart (js ''alice'') Add]
                (newManager [] None (js ''alice''))))
       = [initialStateFrame (js ''default-session'') [],
          JSON_stringify (messageJSON (ReactionUpdate (js ''msg-1'') thumbsUp (js ''alice'') Add)),
          JSON_stringify (messageJSON (ReactionUpdate (js ''msg-2'') heart (js ''alice'') Add))]
   \<and> isConnectionReady ((newManager [] None (js ''alice''))
          \<lparr>messageQueue := [ReactionUpdate (js ''msg-1'') thumbsUp (js ''alice'') Add,
                             ReactionUpdate (js ''msg-2'') heart (js ''alice'') Add,
                             ReactionUpdate (js ''msg-3'') heart (js ''alice'') Add],
           ws := Some OPEN, sendFaults := [False, True, False]\<rparr>)
   \<and> messageQueue (processQueue ((newManager [] None (js ''alice''))
          \<lparr>messageQueue := [ReactionUpdate (js ''msg-1'') thumbsUp (js ''alice'') Add,
                             ReactionUpdate (js ''msg-2'') heart (js ''alice'') Add,
                             ReactionUpdate (js ''msg-3'') heart (js ''alice'') Add],
           ws := Some OPEN, sendFaults := [False, True, False]\<rparr>))
       = [ReactionUpdate (js ''msg-2'') heart (js ''alice'') Add,
          ReactionUpdate (js ''msg-3'') heart (js ''alice'') Add]
   \<and> sent (processQueue ((newManager [] None (js ''alice''))
          \<lparr>messageQueue := [ReactionUpdate (js ''msg-1'') thumbsUp (js ''alice'') Add,
                             ReactionUpdate (js ''msg-2'') heart (js ''alice'') Add,
                             ReactionUpdate (js ''msg-3'') heart (js ''alice'') Add],
           ws := Some OPEN, sendFaults := [False, True, False]\<rparr>))
       = [JSON_stringify (messageJSON (ReactionUpdate (js ''msg-1'') thumbsUp (js ''alice'') Add))]
   \<and> sendFaults (processQueue ((newManager [] None (js ''alice''))
          \<lparr>messageQueue := [ReactionUpdate (js ''msg-1'') thumbsUp (js ''alice'') Add,
                             ReactionUpdate (js ''msg-2'') heart (js ''alice'') Add,
                             ReactionUpdate (js ''msg-3'') heart (js ''alice'') Add],
           ws := Some OPEN, sendFaults := [False, True, False]\<rparr>))
       = [False]"
  using C8_queue [where st = "newManager [] None (js ''alice'')"
      and ms = "[ReactionUpdate (js ''msg-1'') thumbsUp (js ''alice'') Add,
                 ReactionUpdate (js ''msg-2'') heart (js ''alice'') Add]"
      and tok = "js ''default-session''"]
    C8_queue [where st = "(newManager [] None (js ''alice''))
          \<lparr>messageQueue := [ReactionUpdate (js ''msg-1'') thumbsUp (js ''alice'') Add,
                             ReactionUpdate (js ''msg-2'') heart (js ''alice'') Add,
                             ReactionUpdate (js ''msg-3'') heart (js ''alice'') Add],
           ws := Some OPEN, sendFaults := [False, True, False]\<rparr>"
      and k = "Suc 0" and faults = "[False]"]
  by (simp add: newManager_def isConnectionReady_def framesOf_def)


section \<open>Toggling a reaction\<close>

lemma addReaction_send_fails:
  assumes "actualUserName st \<noteq> []" and "isConnectionReady st" and "sendFaults st = True # faults"
  shows "messageReactions (addReaction messageId emoji st) = messageReactions st
     \<and> document (addReaction messageId emoji st) = document st
     \<and> localStorage (addReaction messageId emoji st) = localStorage st
     \<and> sent (addReaction messageId emoji st) = sent st
     \<and> messageQueue (addReaction messageId emoji st) = messageQueue st"
  using assms
  by (simp add: addReaction_def Let_def sendReactionUpdate_def sendMessage_def ws_send_def
      console_log_def)

lemma addReaction_send_ok:
  assumes "actualUserName st \<noteq> []" and "isConnectionReady st"
    and "sendFaults st = [] \<or> (\<exists>faults. sendFaults st = False # faults)"
    and "messageSelector messageId = Value v"
  shows "messageReactions (addReaction messageId emoji st)
       = updateLocalReaction messageId emoji (actualUserName st) (messageReactions st)
     \<and> sent (addReaction messageId emoji st)
       = sent st @ [JSON_stringify (messageJSON (ReactionUpdate messageId emoji (actualUserName st)
                      (getReactionAction messageId emoji (actualUserName st) st)))]"
proof -
  let ?m = "ReactionUpdate messageId emoji (actualUserName st)
                      (getReactionAction messageId emoji (actualUserName st) st)"
  obtain st' where sru: "sendReactionUpdate messageId emoji (actualUserName st) st = (None, st')"
    and st': "messageReactions st' = messageReactions st"
      "sent st' = sent st @ [JSON_stringify (messageJSON ?m)]"
      "actualUserName st' = actualUserName st"
    using assms(2,3)
    by (cases "sendFaults st")
       (auto simp: sendReactionUpdate_def Let_def sendMessage_def ws_send_def)
  let ?st1 = "st'\<lparr>messageReactions :=
                 updateLocalReaction messageId emoji (actualUserName st) (messageReactions st')\<rparr>"
  obtain r2 st2 where u: "updateMessageReactions messageId ?st1 = (r2, st2)"
    by (cases "updateMessageReactions messageId ?st1")
  from u assms(4) have r2: "r2 = None"
    by (auto simp: updateMessageReactions_def split: if_splits prod.splits)
  from updateMessageReactions_frame [of messageId ?st1] u
  have "messageReactions st2 = messageReactions ?st1 \<and> sent st2 = sent ?st1" by auto
  moreover have "addReaction messageId emoji st = saveToLocalStorage (getSessionToken st2) st2"
    using assms(1) sru u r2 by (simp add: addReaction_def Let_def)
  ultimately show ?thesis using st' by (simp add: saveToLocalStorage_def)
qed

lemma addReaction_not_ready:
  assumes "actualUserName st \<noteq> []" and "\<not> isConnectionReady st"
    and "messageSelector messageId = Value v"
  shows "messageReactions (addReaction messageId emoji st)
       = updateLocalReaction messageId emoji (actualUserName st) (messageReactions st)
     \<and> sent (addReaction messageId emoji st) = sent st
     \<and> messageQueue (addReaction messageId emoji st)
       = messageQueue st @ [ReactionUpdate messageId emoji (actualUserName st)
                      (getReactionAction messageId emoji (actualUserName st) st)]
     \<and> localStorage (addReaction messageId emoji st)
          (storageKey (getSessionToken st))
       = Some (JSON_stringify (snapshotObject
           (updateLocalReaction messageId emoji (actualUserName st) (messageReactions st))))"
proof -
  let ?m = "ReactionUpdate messageId emoji (actualUserName st)
                      (getReactionAction messageId emoji (actualUserName st) st)"
  let ?st' = "st\<lparr>messageQueue := messageQueue st @ [?m]\<rparr>"
  from assms(2) have nr: "\<not> isConnectionReady ?st'" by (simp add: isConnectionReady_def)
  with assms(2) have sru: "sendReactionUpdate messageId emoji (actualUserName st) st = (None, ?st')"
    by (simp add: sendReactionUpdate_def Let_def queueMessage_def processQueue_not_ready)
  let ?st1 = "?st'\<lparr>messageReactions :=
                 updateLocalReaction messageId emoji (actualUserName st) (messageReactions ?st')\<rparr>"
  obtain r2 st2 where u: "updateMessageReactions messageId ?st1 = (r2, st2)"
    by (cases "updateMessageReactions messageId ?st1")
  from u assms(3) have r2: "r2 = None"
    by (auto simp: updateMessageReactions_def split: if_splits prod.splits)
  from updateMessageReactions_frame [of messageId ?st1] u
  have "messageReactions st2 = messageReactions ?st1 \<and> sent st2 = sent ?st1
      \<and> messageQueue st2 = messageQueue ?st1
      \<and> sessionTokenParam st2 = sessionTokenParam ?st1" by auto
  moreover have "addReaction messageId emoji st = saveToLocalStorage (getSessionToken st2) st2"
    using assms(1) sru u r2 by (simp add: addReaction_def Let_def)
  ultimately show ?thesis by (simp add: saveToLocalStorage_def getSessionToken_def)
qed

text \<open>
  Claim C1.  The reaction state is to change only after the send is confirmed.  On a
  connection that is open and whose send fails this holds (\<open>addReaction_send_fails\<close>).  On
  a connection that is not open it does not: \<open>sendReactionUpdate\<close> queues the message and
  returns, nothing is sent, and \<open>addReaction\<close> goes on to change the table, the display and
  the stored snapshot.  For the user alice picking the thumbs-up for message msg-1 while the
  socket is still connecting: no frame is sent, the message is in the queue, and table, badge
  and snapshot hold the reaction.
\<close>

theorem C1_closed_channel_mutates:
  "\<not> isConnectionReady ((newManager [attachedMessage (js ''msg-1'')] None (js ''alice''))
        \<lparr>messageReactions := [(js ''msg-1'', [])], ws := Some CONNECTING\<rparr>)
   \<and> sent (addReaction (js ''msg-1'') thumbsUp
        ((newManager [attachedMessage (js ''msg-1'')] None (js ''alice''))
           \<lparr>messageReactions := [(js ''msg-1'', [])], ws := Some CONNECTING\<rparr>)) = []
   \<and> messageQueue (addReaction (js ''msg-1'') thumbsUp
        ((newManager [attachedMessage (js ''msg-1'')] None (js ''alice''))
           \<lparr>messageReactions := [(js ''msg-1'', [])], ws := Some CONNECTING\<rparr>))
       = [ReactionUpdate (js ''msg-1'') thumbsUp (js ''alice'') Add]
   \<and> messageReactions (addReaction (js ''msg-1'') thumbsUp
        ((newManager [attachedMessage (js ''msg-1'')] None (js ''alice''))
           \<lparr>messageReactions := [(js ''msg-1'', [])], ws := Some CONNECTING\<rparr>))
       = [(js ''msg-1'', [(thumbsUp, [js ''alice''])])]
   \<and> document (addReaction (js ''msg-1'') thumbsUp
        ((newManager [attachedMessage (js ''msg-1'')] None (js ''alice''))
           \<lparr>messageReactions := [(js ''msg-1'', [])], ws := Some CONNECTING\<rparr>))
       = [(attachedMessage (js ''msg-1''))
            \<lparr>children := [UserName (js ''bob''), MessageText (js ''hi''), Timestamp (js ''10:00''),
                  ReactionButton (js ''msg-1''),
                  ReactionsWrapper [\<lparr>badge_text = thumbsUp @ js '' 1'',
                     badge_title = js ''alice'', badge_highlighted = True\<rparr>]]\<rparr>]
   \<and> localStorage (addReaction (js ''msg-1'') thumbsUp
        ((newManager [attachedMessage (js ''msg-1'')] None (js ''alice''))
           \<lparr>messageReactions := [(js ''msg-1'', [])], ws := Some CONNECTING\<rparr>))
        (storageKey (js ''default-session''))
       = Some (JSON_stringify
           (JObj [(js ''msg-1'', JObj [(thumbsUp, JArr [JStr (js ''alice'')])])]))
   \<and> localStorage ((newManager [attachedMessage (js ''msg-1'')] None (js ''alice''))
           \<lparr>messageReactions := [(js ''msg-1'', [])], ws := Some CONNECTING\<rparr>)
        (storageKey (js ''default-session'')) = None"
  by (simp add: addReaction_def sendReactionUpdate_def queueMessage_def processQueue_not_ready
      isConnectionReady_def newManager_def Let_def getReactionAction_def map_get_def
      updateLocalReaction_def map_set_def updateMessageReactions_def attachedMessage_def
      messageSelector_def css_literal_def css_newline_def is_high_surrogate_def
      is_low_surrogate_def
      updateReactionDisplay_def createReactionBadge_def ensureReactionsContainer_def
      saveToLocalStorage_def getSessionToken_def snapshotObject_def Object_fromEntries_def
      prop_set_def array_index_def is_digit_def js_def thumbsUp_def)


section \<open>JSON: parsing what was serialised\<close>

lemma hex_val_hex_digit: "d < 16 \<Longrightarrow> hex_val (hex_digit d) = Some d"
  by (cases "d < 10") (simp_all add: hex_val_def hex_digit_def)

lemma hex4_arith:
  assumes "c < 65536"
  shows "4096 * (c div 4096 mod 16) + 256 * (c div 256 mod 16) + 16 * (c div 16 mod 16) + c mod 16
          = (c::nat)"
proof -
  have a: "c div 16 div 16 = c div 256" by (simp add: div_mult2_eq)
  have b: "c div 256 div 16 = c div 4096" by (simp add: div_mult2_eq)
  have d: "c div 4096 mod 16 = c div 4096" using assms by (simp add: less_mult_imp_div_less)
  have e0: "c = 16 * (c div 16) + c mod 16" by simp
  have e1: "c div 16 = 16 * (c div 256) + c div 16 mod 16"
    using mult_div_mod_eq [of 16 "c div 16"] a by simp
  have e2: "c div 256 = 16 * (c div 4096) + c div 256 mod 16"
    using mult_div_mod_eq [of 16 "c div 256"] b by simp
  from e0 e1 e2 d show ?thesis by linarith
qed

lemma hex4_unicode_escape:
  assumes "c < 65536"
  shows "hex4 (hex_digit (c div 4096 mod 16)) (hex_digit (c div 256 mod 16))
           (hex_digit (c div 16 mod 16)) (hex_digit (c mod 16)) = Some c"
proof -
  have v: "hex_val (hex_digit (x mod 16)) = Some (x mod 16)" for x
    by (simp add: hex_val_hex_digit)
  show ?thesis
    unfolding hex4_def v using hex4_arith [OF assms] by (simp only: prod.case option.case)
qed

lemma parse_string_quote_unit:
  "parse_string (quote_unit c @ rest) = map_option (\<lambda>(s, r'). (c # s, r')) (parse_string rest)"
proof -
  consider (short) "c \<in> {8, 9, 10, 12, 13, 34, 92}"
    | (esc) "c \<notin> {8, 9, 10, 12, 13, 34, 92}" "c < 32 \<or> is_high_surrogate c \<or> is_low_surrogate c"
    | (raw) "c \<notin> {8, 9, 10, 12, 13, 34, 92}" "\<not> (c < 32 \<or> is_high_surrogate c \<or> is_low_surrogate c)"
    by blast
  then show ?thesis
  proof cases
    case short
    then show ?thesis
      by (elim insertE emptyE; hypsubst; simp add: quote_unit_def unescape_def)
  next
    case esc
    then have "c < 65536" by (auto simp: is_high_surrogate_def is_low_surrogate_def)
    from hex4_unicode_escape [OF this] esc show ?thesis
      by (simp add: quote_unit_def unicode_escape_def)
  next
    case raw
    then show ?thesis by (simp add: quote_unit_def)
  qed
qed

lemma parse_string_quote_units: "parse_string (quote_units s @ 34 # rest) = Some (s, rest)"
proof (induction s rule: quote_units.induct)
  case 1
  then show ?case by simp
next
  case (2 c)
  have "parse_string (34 # rest) = Some ([], rest)" by simp
  then have "parse_string (quote_unit c @ 34 # rest) = Some ([c], rest)"
    by (simp only: parse_string_quote_unit option.map prod.case)
  then show ?case by (simp only: quote_units.simps)
next
  case (3 c d cs)
  show ?case
  proof (cases "is_high_surrogate c \<and> is_low_surrogate d")
    case True
    then have q: "quote_units (c # d # cs) = c # d # quote_units cs"
      by simp
    from True have "c \<noteq> 34" "c \<noteq> 92" "\<not> c < 32" "d \<noteq> 34" "d \<noteq> 92" "\<not> d < 32"
      by (auto simp: is_high_surrogate_def is_low_surrogate_def)
    with 3(1) [OF True] show ?thesis unfolding q
      by (simp del: quote_units.simps)
  next
    case False
    then have q: "quote_units (c # d # cs) = quote_unit c @ quote_units (d # cs)"
      by (simp only: quote_units.simps if_False)
    have "parse_string (quote_unit c @ (quote_units (d # cs) @ 34 # rest))
        = Some (c # d # cs, rest)"
      by (simp only: parse_string_quote_unit 3(2) [OF False] option.map prod.case)
    then show ?thesis unfolding q by (simp only: append_assoc)
  qed
qed

section \<open>Property order of objects\<close>

lemma array_index_inj: "array_index k = Some i \<Longrightarrow> array_index k' = Some i \<Longrightarrow> k = k'"
  by (auto simp: array_index_def split: if_splits)

lemma keyBefore_neq: "keyBefore k k' \<Longrightarrow> k \<noteq> k'"
  by (auto simp: keyBefore_def split: option.splits)

lemma sorted_keyBefore_distinct: "sorted_wrt keyBefore ks \<Longrightarrow> distinct ks"
  by (induction ks) (auto dest: keyBefore_neq)

lemma enumerationOrder_distinct: "enumerationOrder ps \<Longrightarrow> distinct (map fst ps)"
  unfolding enumerationOrder_def by (rule sorted_keyBefore_distinct)

lemma set_insert_index: "set (insert_index i k v ps) = insert (k, v) (set ps)"
proof (induction ps)
  case Nil
  then show ?case by simp
next
  case (Cons p ps)
  obtain k' v' where p: "p = (k', v')" by (cases p)
  show ?case
  proof (cases "array_index k'")
    case None
    then show ?thesis by (simp add: p)
  next
    case (Some j)
    with Cons.IH show ?thesis by (cases "j < i") (auto simp: p)
  qed
qed

lemma keys_insert_index: "set (map fst (insert_index i k v ps)) = insert k (set (map fst ps))"
  by (simp add: set_insert_index)

lemma distinct_insert_index:
  assumes "distinct (map fst ps)" and "k \<notin> set (map fst ps)"
  shows "distinct (map fst (insert_index i k v ps))"
  using assms
proof (induction ps)
  case Nil
  then show ?case by simp
next
  case (Cons p ps)
  obtain k' v' where p: "p = (k', v')" by (cases p)
  from Cons.prems p have d: "distinct (map fst ps)" and n: "k \<notin> set (map fst ps)"
    and k': "k' \<notin> set (map fst ps)" and kk: "k \<noteq> k'"
    by auto
  show ?case
  proof (cases "array_index k'")
    case None
    with Cons.prems show ?thesis by (simp add: p)
  next
    case (Some j)
    show ?thesis
    proof (cases "j < i")
      case True
      from k' kk have "k' \<notin> set (map fst (insert_index i k v ps))"
        by (simp only: keys_insert_index) simp
      with Cons.IH [OF d n] True Some show ?thesis by (simp add: p)
    next
      case False
      with Some Cons.prems show ?thesis by (simp add: p)
    qed
  qed
qed

lemma insert_index_order:
  assumes "sorted_wrt keyBefore (map fst ps)" and "array_index k = Some i"
    and "k \<notin> set (map fst ps)"
  shows "sorted_wrt keyBefore (map fst (insert_index i k v ps))"
  using assms
proof (induction ps)
  case Nil
  then show ?case by simp
next
  case (Cons p ps)
  obtain k' v' where p: "p = (k', v')" by (cases p)
  from Cons.prems p have after: "\<forall>x\<in>set (map fst ps). keyBefore k' x"
    and sorted: "sorted_wrt keyBefore (map fst ps)" and kk: "k \<noteq> k'" and notin: "k \<notin> set (map fst ps)"
    by auto
  show ?case
  proof (cases "array_index k'")
    case None
    with after have "\<forall>x\<in>set (map fst ps). array_index x = None"
      by (auto simp: keyBefore_def)
    with Cons.prems(2) None have "\<forall>x\<in>set (map fst (p # ps)). keyBefore k x"
      by (auto simp: keyBefore_def p)
    with None Cons.prems(1) show ?thesis by (simp add: p)
  next
    case (Some j)
    show ?thesis
    proof (cases "j < i")
      case True
      with Some Cons.prems(2) have "keyBefore k' k" by (simp add: keyBefore_def)
      with after have "\<forall>x\<in>set (map fst (insert_index i k v ps)). keyBefore k' x"
        by (auto simp: set_insert_index)
      with Cons.IH [OF sorted Cons.prems(2) notin] True Some show ?thesis
        by (simp add: p)
    next
      case False
      from Some Cons.prems(2) kk have "j \<noteq> i" by (auto dest: array_index_inj)
      with False have ij: "i < j" by simp
      have "\<forall>x\<in>set (map fst (p # ps)). keyBefore k x"
      proof
        fix x assume "x \<in> set (map fst (p # ps))"
        then consider "x = k'" | "x \<in> set (map fst ps)" by (auto simp: p)
        then show "keyBefore k x"
        proof cases
          case 1
          with ij Some Cons.prems(2) show ?thesis by (simp add: keyBefore_def)
        next
          case 2
          with after have "keyBefore k' x" by blast
          with Some ij Cons.prems(2) show ?thesis
            by (auto simp: keyBefore_def split: option.splits)
        qed
      qed
      with False Some Cons.prems(1) show ?thesis by (simp add: p)
    qed
  qed
qed

lemma map_of_None_keys: "map_of ps k = None \<longleftrightarrow> k \<notin> set (map fst ps)"
  by (simp add: map_of_eq_None_iff)

lemma prop_set_order:
  assumes "enumerationOrder ps"
  shows "enumerationOrder (prop_set k v ps)"
proof (cases "map_of ps k = None")
  case False
  then have "k \<in> set (map fst ps)" by (simp add: map_of_None_keys)
  then have "map fst (AList.update k v ps) = map fst ps" by (simp add: update_keys)
  with False assms show ?thesis by (simp add: prop_set_def enumerationOrder_def)
next
  case True
  then have notin: "k \<notin> set (map fst ps)" by (simp add: map_of_None_keys)
  show ?thesis
  proof (cases "array_index k")
    case None
    with notin have "\<forall>x\<in>set (map fst ps). keyBefore x k"
      by (auto simp: keyBefore_def split: option.splits)
    with True None assms show ?thesis
      by (simp add: prop_set_def enumerationOrder_def sorted_wrt_append)
  next
    case (Some i)
    with True assms insert_index_order [OF _ Some notin] show ?thesis
      by (simp add: prop_set_def enumerationOrder_def)
  qed
qed

lemma insert_index_at_end:
  assumes "\<forall>x\<in>set (map fst ps). \<exists>j. array_index x = Some j \<and> j < i"
  shows "insert_index i k v ps = ps @ [(k, v)]"
  using assms by (induction ps) auto

lemma prop_set_at_end:
  assumes "enumerationOrder (ps @ [(k, v)])"
  shows "prop_set k v ps = ps @ [(k, v)]"
proof -
  from assms have before: "\<forall>x\<in>set (map fst ps). keyBefore x k"
    by (simp add: enumerationOrder_def sorted_wrt_append)
  then have "k \<notin> set (map fst ps)" by (auto dest: keyBefore_neq)
  then have none: "map_of ps k = None" by (simp add: map_of_None_keys)
  show ?thesis
  proof (cases "array_index k")
    case None
    with none show ?thesis by (simp add: prop_set_def)
  next
    case (Some i)
    with before have "\<forall>x\<in>set (map fst ps). \<exists>j. array_index x = Some j \<and> j < i"
      by (auto simp: keyBefore_def split: option.splits)
    from insert_index_at_end [OF this] none Some show ?thesis by (simp add: prop_set_def)
  qed
qed

lemma foldl_prop_set_ordered:
  assumes "enumerationOrder (acc @ ps)"
  shows "foldl (\<lambda>obj (k, v). prop_set k v obj) acc ps = acc @ ps"
  using assms
proof (induction ps arbitrary: acc)
  case Nil
  then show ?case by simp
next
  case (Cons p ps)
  obtain k v where p: "p = (k, v)" by (cases p)
  from Cons.prems have "enumerationOrder (acc @ [(k, v)])"
    by (simp add: enumerationOrder_def sorted_wrt_append p)
  then have "prop_set k v acc = acc @ [(k, v)]" by (rule prop_set_at_end)
  with Cons.IH [of "acc @ [p]"] Cons.prems show ?case by (simp add: p)
qed

lemma Object_fromEntries_ordered: "enumerationOrder ps \<Longrightarrow> Object_fromEntries ps = ps"
  using foldl_prop_set_ordered [of "[]" ps] by (simp add: Object_fromEntries_def)

lemma foldl_prop_set_order:
  "enumerationOrder acc \<Longrightarrow> enumerationOrder (foldl (\<lambda>obj (k, v). prop_set k v obj) acc es)"
  by (induction es arbitrary: acc) (auto simp: prop_set_order)

lemma enumerationOrder_fromEntries: "enumerationOrder (Object_fromEntries es)"
  unfolding Object_fromEntries_def
  by (rule foldl_prop_set_order) (simp add: enumerationOrder_def)

lemma set_prop_set_new: "map_of ps k = None \<Longrightarrow> set (prop_set k v ps) = insert (k, v) (set ps)"
  by (auto simp: prop_set_def set_insert_index split: option.splits)

lemma foldl_prop_set_set:
  assumes "distinct (map fst (acc @ es))"
  shows "set (foldl (\<lambda>obj (k, v). prop_set k v obj) acc es) = set acc \<union> set es"
  using assms
proof (induction es arbitrary: acc)
  case Nil
  then show ?case by simp
next
  case (Cons p es)
  obtain k v where p: "p = (k, v)" by (cases p)
  from Cons.prems have "k \<notin> set (map fst acc)" by (auto simp: p)
  then have none: "map_of acc k = None" by (simp add: map_of_None_keys)
  then have s: "set (prop_set k v acc) = insert (k, v) (set acc)" by (rule set_prop_set_new)
  then have "set (map fst (prop_set k v acc)) = insert k (set (map fst acc))"
    by (simp only: set_map) force
  moreover have "distinct (map fst (prop_set k v acc))"
  proof (cases "array_index k")
    case None
    with none Cons.prems show ?thesis by (simp add: prop_set_def p)
  next
    case (Some i)
    have "distinct (map fst (insert_index i k v acc))"
      using Cons.prems \<open>k \<notin> set (map fst acc)\<close> by (intro distinct_insert_index) simp_all
    with none Some show ?thesis by (simp add: prop_set_def)
  qed
  ultimately have "distinct (map fst (prop_set k v acc @ es))"
    using Cons.prems by (auto simp: p)
  from Cons.IH [OF this] s show ?case by (simp add: p)
qed

lemma set_Object_fromEntries:
  "distinct (map fst es) \<Longrightarrow> set (Object_fromEntries es) = set es"
  using foldl_prop_set_set [of "[]" es] by (simp add: Object_fromEntries_def)

lemma map_of_Object_fromEntries:
  assumes "distinct (map fst es)"
  shows "map_of (Object_fromEntries es) = map_of es"
proof -
  have "distinct (map fst (Object_fromEntries es))"
    using enumerationOrder_fromEntries by (rule enumerationOrder_distinct)
  with assms set_Object_fromEntries [OF assms] show ?thesis
    by (simp add: map_of_inject_set)
qed

section \<open>Parsing the serialisation of a value\<close>

lemma pv_string:
  "parse_value (Suc m) (34 # cs) = map_option (\<lambda>(t, r). (JStr t, r)) (parse_string cs)"
  by (simp add: skip_ws_def is_ws_def)

lemma pv_array_empty: "parse_value (Suc m) (91 # 93 # r) = Some (JArr [], r)"
  by (simp add: skip_ws_def is_ws_def)

lemma pv_array:
  assumes "\<not> is_ws d" and "d \<noteq> 93"
  shows "parse_value (Suc m) (91 # d # cs)
       = map_option (\<lambda>(vs, r). (JArr vs, r)) (parse_elements m (d # cs))"
  using assms by (simp add: skip_ws_def is_ws_def)

lemma pv_object_empty: "parse_value (Suc m) (123 # 125 # r) = Some (JObj [], r)"
  by (simp add: skip_ws_def is_ws_def)

lemma pv_object:
  assumes "\<not> is_ws d" and "d \<noteq> 125"
  shows "parse_value (Suc m) (123 # d # cs)
       = map_option (\<lambda>(ms, r). (JObj (Object_fromEntries ms), r)) (parse_members m (d # cs))"
  using assms by (simp add: skip_ws_def is_ws_def)

lemma pv_null: "parse_value (Suc m) (js ''null'' @ r) = Some (JNull, r)"
  by (simp add: skip_ws_def is_ws_def parse_literal_def js_def)

lemma pv_true: "parse_value (Suc m) (js ''true'' @ r) = Some (JBool True, r)"
  by (simp add: skip_ws_def is_ws_def parse_literal_def js_def)

lemma pv_false: "parse_value (Suc m) (js ''false'' @ r) = Some (JBool False, r)"
  by (simp add: skip_ws_def is_ws_def parse_literal_def js_def)

lemma opener_facts: "opener c \<Longrightarrow> \<not> is_ws c \<and> c \<noteq> 93 \<and> c \<noteq> 125 \<and> c \<noteq> 44 \<and> c \<noteq> 58"
  by (auto simp: opener_def is_ws_def)

lemma stringify_opener: "plain v \<Longrightarrow> \<exists>c cs. JSON_stringify v = c # cs \<and> opener c"
  by (cases v) (auto simp: opener_def js_def QuoteJSONString_def)

lemma skip_ws_Cons: "\<not> is_ws c \<Longrightarrow> skip_ws (c # cs) = c # cs"
  by (simp add: skip_ws_def)

lemma join_Cons_Cons: "join sep (x # y # ys) = x @ sep @ join sep (y # ys)"
  by simp

lemma parse_elements_roundtrip:
  assumes "\<forall>v\<in>set vs. plain v"
    and "\<forall>v\<in>set vs. \<forall>n r. length (JSON_stringify v) \<le> n
           \<longrightarrow> parse_value n (JSON_stringify v @ r) = Some (v, r)"
    and "vs \<noteq> []"
    and "length (join [44] (map JSON_stringify vs)) < n"
  shows "parse_elements n (join [44] (map JSON_stringify vs) @ 93 # r) = Some (vs, r)"
  using assms
proof (induction vs arbitrary: n)
  case Nil
  then show ?case by simp
next
  case (Cons v vs)
  from Cons.prems(4) obtain m where n: "n = Suc m" by (cases n) auto
  from Cons.prems(2) have pv: "length (JSON_stringify v) \<le> k
      \<Longrightarrow> parse_value k (JSON_stringify v @ r') = Some (v, r')" for k r'
    by simp
  show ?case
  proof (cases vs)
    case Nil
    with Cons.prems(4) n have "length (JSON_stringify v) \<le> m" by simp
    from pv [OF this, of "93 # r"] Nil n show ?thesis
      by (simp add: skip_ws_def is_ws_def)
  next
    case (Cons w ws)
    let ?rest = "join [44] (map JSON_stringify (w # ws)) @ 93 # r"
    have shape: "join [44] (map JSON_stringify (v # w # ws)) @ 93 # r
        = JSON_stringify v @ 44 # ?rest"
      by simp
    from Cons.prems(4) Cons n have len: "length (JSON_stringify v) \<le> m"
      and len': "length (join [44] (map JSON_stringify (w # ws))) < m"
      by simp_all
    from Cons.prems(1,2) Cons.IH [of m] len' Cons
    have rest: "parse_elements m ?rest = Some (w # ws, r)" by simp
    have "parse_elements (Suc m) (JSON_stringify v @ 44 # ?rest) = Some (v # w # ws, r)"
      using pv [OF len, of "44 # ?rest"] rest
      by (simp add: skip_ws_def is_ws_def del: join.simps)
    with shape Cons n show ?thesis by (simp only:)
  qed
qed

lemma JSON_stringify_JObj:
  "JSON_stringify (JObj ps) = [123] @ join [44] (map memberText ps) @ [125]"
proof -
  have "(\<lambda>(k, v). QuoteJSONString k @ [58] @ JSON_stringify v) = memberText"
    by (auto simp: memberText_def fun_eq_iff)
  then show ?thesis by simp
qed

lemma parse_member:
  assumes "length (JSON_stringify v) \<le> m"
    and "\<And>k r. length (JSON_stringify v) \<le> k \<Longrightarrow> parse_value k (JSON_stringify v @ r) = Some (v, r)"
  shows "parse_members (Suc m) (memberText (key, v) @ 125 # r) = Some ([(key, v)], r)"
    and "parse_members m rest = Some (ms, r)
         \<Longrightarrow> parse_members (Suc m) (memberText (key, v) @ 44 # rest) = Some ((key, v) # ms, r)"
proof -
  have t: "memberText (key, v) @ x = 34 # quote_units key @ 34 # 58 # JSON_stringify v @ x" for x
    by (simp add: memberText_def QuoteJSONString_def)
  show "parse_members (Suc m) (memberText (key, v) @ 125 # r) = Some ([(key, v)], r)"
    unfolding t using assms(2) [OF assms(1), of "125 # r"]
    by (simp add: skip_ws_def is_ws_def parse_string_quote_units)
  assume "parse_members m rest = Some (ms, r)"
  then show "parse_members (Suc m) (memberText (key, v) @ 44 # rest) = Some ((key, v) # ms, r)"
    unfolding t using assms(2) [OF assms(1), of "44 # rest"]
    by (simp add: skip_ws_def is_ws_def parse_string_quote_units)
qed

lemma length_memberText: "length (JSON_stringify (snd p)) < length (memberText p)"
  by (simp add: memberText_def QuoteJSONString_def)

lemma parse_members_roundtrip:
  assumes "\<forall>p\<in>set ps. \<forall>n r. length (JSON_stringify (snd p)) \<le> n
           \<longrightarrow> parse_value n (JSON_stringify (snd p) @ r) = Some (snd p, r)"
    and "ps \<noteq> []"
    and "length (join [44] (map memberText ps)) < n"
  shows "parse_members n (join [44] (map memberText ps) @ 125 # r) = Some (ps, r)"
  using assms
proof (induction ps arbitrary: n)
  case Nil
  then show ?case by simp
next
  case (Cons p ps)
  from Cons.prems(3) obtain m where n: "n = Suc m" by (cases n) auto
  obtain key v where p: "p = (key, v)" by (cases p)
  from Cons.prems(1) p have pv: "length (JSON_stringify v) \<le> k
      \<Longrightarrow> parse_value k (JSON_stringify v @ r') = Some (v, r')" for k r'
    by simp
  show ?case
  proof (cases ps)
    case Nil
    with Cons.prems(3) n p length_memberText [of p] have "length (JSON_stringify v) \<le> m" by simp
    from parse_member(1) [OF this pv] Nil n p show ?thesis by simp
  next
    case (Cons q qs)
    let ?rest = "join [44] (map memberText (q # qs)) @ 125 # r"
    have shape: "join [44] (map memberText (p # q # qs)) @ 125 # r = memberText p @ 44 # ?rest"
      by simp
    from Cons.prems(3) Cons n p length_memberText [of p]
    have len: "length (JSON_stringify v) \<le> m"
      and len': "length (join [44] (map memberText (q # qs))) < m"
      by simp_all
    from Cons.prems(1) Cons.IH [of m] len' Cons
    have rest: "parse_members m ?rest = Some (q # qs, r)" by simp
    from parse_member(2) [OF len pv rest] shape Cons n p show ?thesis by (simp only:)
  qed
qed

theorem parse_value_stringify:
  "plain v \<Longrightarrow> length (JSON_stringify v) \<le> n
     \<Longrightarrow> parse_value n (JSON_stringify v @ r) = Some (v, r)"
proof (induction v arbitrary: n r)
  case JNull
  then obtain m where "n = Suc m" by (cases n) (auto simp: js_def)
  then show ?case by (simp only: JSON_stringify.simps pv_null)
next
  case (JBool b)
  then obtain m where "n = Suc m" by (cases n; cases b) (auto simp: js_def)
  then show ?case by (cases b) (simp_all only: JSON_stringify.simps pv_true pv_false if_True if_False)
next
  case (JNum l)
  then show ?case by simp
next
  case (JStr s)
  then obtain m where "n = Suc m" by (cases n) (auto simp: QuoteJSONString_def)
  then show ?case
    by (simp add: QuoteJSONString_def pv_string parse_string_quote_units del: parse_value.simps)
next
  case (JArr vs)
  from JArr.prems(2) obtain m where n: "n = Suc m" by (cases n) auto
  show ?case
  proof (cases vs)
    case Nil
    with n show ?thesis by (simp add: pv_array_empty del: parse_value.simps)
  next
    case (Cons w ws)
    from JArr.prems(1) have pl: "\<forall>v\<in>set vs. plain v" by simp
    with Cons stringify_opener [of w] obtain c cs where
      c: "JSON_stringify w = c # cs" "opener c" by auto
    let ?body = "join [44] (map JSON_stringify vs)"
    from c Cons obtain cs' where body: "?body = c # cs'"
      by (cases ws) auto
    from JArr.prems(2) n have len: "length ?body < m" by simp
    have "parse_elements m (?body @ 93 # r) = Some (vs, r)"
      using pl JArr.IH Cons len by (intro parse_elements_roundtrip) auto
    with body c(2) n show ?thesis
      using pv_array [of c m "cs' @ 93 # r"] opener_facts [of c]
      by (simp del: parse_value.simps)
  qed
next
  case (JObj ps)
  from JObj.prems(2) obtain m where n: "n = Suc m" by (cases n) auto
  show ?case
  proof (cases ps)
    case Nil
    with n show ?thesis by (simp add: pv_object_empty del: parse_value.simps)
  next
    case (Cons q qs)
    from JObj.prems(1) have ord: "enumerationOrder ps" and pl: "\<forall>p\<in>set ps. plain (snd p)"
      by simp_all
    let ?body = "join [44] (map memberText ps)"
    from Cons obtain cs' where body: "?body = 34 # cs'"
      by (cases qs) (auto simp: memberText_def QuoteJSONString_def)
    from JObj.prems(2) n have len: "length ?body < m"
      unfolding JSON_stringify_JObj by simp
    have ih: "\<forall>p\<in>set ps. \<forall>n r. length (JSON_stringify (snd p)) \<le> n
           \<longrightarrow> parse_value n (JSON_stringify (snd p) @ r) = Some (snd p, r)"
    proof (intro ballI allI impI)
      fix p n r assume p: "p \<in> set ps" and l: "length (JSON_stringify (snd p)) \<le> n"
      obtain k v where kv: "p = (k, v)" by (cases p)
      with p pl have "plain v" by auto
      with JObj.IH [of p v n r] p kv l show "parse_value n (JSON_stringify (snd p) @ r) = Some (snd p, r)"
        by simp
    qed
    have "parse_members m (?body @ 125 # r) = Some (ps, r)"
      using ih Cons len by (intro parse_members_roundtrip) auto
    with body n ord show ?thesis
      unfolding JSON_stringify_JObj
      using pv_object [of 34 m "cs' @ 125 # r"]
      by (simp add: is_ws_def Object_fromEntries_ordered del: parse_value.simps JSON_stringify.simps)
  qed
qed

theorem JSON_parse_stringify: "plain v \<Longrightarrow> JSON_parse (JSON_stringify v) = Some v"
  using parse_value_stringify [of v "Suc (length (JSON_stringify v))" "[]"]
  by (simp add: JSON_parse_def skip_ws_def del: parse_value.simps)


section \<open>Saving and loading the snapshot\<close>

lemma map_of_map_values:
  "map_of (map (\<lambda>(k, v). (k, f v)) ps) k = map_option f (map_of ps k)"
  by (induction ps) auto

lemma update_map_values:
  "AList.update k (f v) (map (\<lambda>(k, v). (k, f v)) ps) = map (\<lambda>(k, v). (k, f v)) (AList.update k v ps)"
  by (induction ps) auto

lemma insert_index_map_values:
  "insert_index i k (f v) (map (\<lambda>(k, v). (k, f v)) ps)
     = map (\<lambda>(k, v). (k, f v)) (insert_index i k v ps)"
  by (induction ps) (auto split: option.splits)

lemma prop_set_map_values:
  "prop_set k (f v) (map (\<lambda>(k, v). (k, f v)) ps) = map (\<lambda>(k, v). (k, f v)) (prop_set k v ps)"
  by (simp add: prop_set_def map_of_map_values update_map_values insert_index_map_values
      split: option.splits)

lemma foldl_prop_set_map_values:
  "foldl (\<lambda>obj (k, v). prop_set k v obj) (map (\<lambda>(k, v). (k, f v)) acc)
       (map (\<lambda>(k, v). (k, f v)) es)
     = map (\<lambda>(k, v). (k, f v)) (foldl (\<lambda>obj (k, v). prop_set k v obj) acc es)"
proof (induction es arbitrary: acc)
  case Nil
  then show ?case by simp
next
  case (Cons p es)
  obtain k v where p: "p = (k, v)" by (cases p)
  from Cons.IH [of "prop_set k v acc"] show ?case
    by (simp add: p prop_set_map_values)
qed

lemma Object_fromEntries_map_values:
  "Object_fromEntries (map (\<lambda>(k, v). (k, f v)) es) = map (\<lambda>(k, v). (k, f v)) (Object_fromEntries es)"
  using foldl_prop_set_map_values [of f "[]" es] by (simp add: Object_fromEntries_def)

lemma map_fst_map_values: "map fst (map (\<lambda>(k, v). (k, f v)) ps) = map fst ps"
  by (induction ps) auto

lemma enumerationOrder_map_values:
  "enumerationOrder (map (\<lambda>(k, v). (k, f v)) ps) = enumerationOrder ps"
  unfolding enumerationOrder_def by (simp only: map_fst_map_values)

lemma snapshotObject_eq:
  "snapshotObject mr = JObj (map (\<lambda>(m, r). (m, reactionsObject r)) (Object_fromEntries mr))"
  by (simp only: snapshotObject_def reactionsObject_def Object_fromEntries_map_values)

lemma plain_reactionsObject: "plain (reactionsObject r)"
  by (auto simp: reactionsObject_def enumerationOrder_map_values enumerationOrder_fromEntries)

lemma plain_snapshotObject: "plain (snapshotObject mr)"
  by (auto simp: snapshotObject_eq enumerationOrder_map_values enumerationOrder_fromEntries
      plain_reactionsObject)

lemma strings_of_JStr: "strings_of (map JStr us) = Some us"
  by (induction us) simp_all

lemma collect_Typed:
  assumes "\<forall>x\<in>set xs. f x = Typed (g x)"
  shows "collect (map f xs) = Typed (map g xs)"
  using assms by (induction xs) simp_all

lemma newMap_append:
  assumes "distinct (map fst (acc @ xs))"
  shows "foldl (\<lambda>m (k, v). map_set k v m) acc xs = acc @ xs"
  using assms
proof (induction xs arbitrary: acc)
  case Nil
  then show ?case by simp
next
  case (Cons p xs)
  obtain k v where p: "p = (k, v)" by (cases p)
  from Cons.prems p have "k \<notin> set (map fst acc)" by auto
  then have "map_set k v acc = acc @ [(k, v)]"
    unfolding map_set_def by (induction acc) auto
  with Cons.IH [of "acc @ [p]"] Cons.prems show ?case by (simp add: p)
qed

lemma newMap_distinct: "distinct (map fst xs) \<Longrightarrow> newMap xs = xs"
  using newMap_append [of "[]" xs] by (simp add: newMap_def)

lemma distinct_fromEntries: "distinct (map fst (Object_fromEntries es))"
  using enumerationOrder_fromEntries by (rule enumerationOrder_distinct)

lemma collect_users:
  "collect (map (\<lambda>(emoji, users).
                               case storedUsers users of
                                 Typed l \<Rightarrow> Typed (emoji, l) | Untyped \<Rightarrow> Untyped | Throws \<Rightarrow> Throws)
              (map (\<lambda>(emoji, users). (emoji, JArr (map JStr users))) xs)) = Typed xs"
  by (induction xs) (auto simp: storedUsers_def strings_of_JStr)

lemma storedReactions_reactionsObject:
  "storedReactions (reactionsObject r) = Typed (Object_fromEntries r)"
  by (simp add: storedReactions_def reactionsObject_def Object_entries_def collect_users
      newMap_distinct distinct_fromEntries del: map_map)

lemma collect_messages:
  "collect (map (\<lambda>(messageId, reactions).
                               case storedReactions reactions of
                                 Typed r \<Rightarrow> Typed (messageId, r) | Untyped \<Rightarrow> Untyped
                               | Throws \<Rightarrow> Throws)
              (map (\<lambda>(m, r). (m, reactionsObject r)) xs))
     = Typed (map (\<lambda>(m, r). (m, Object_fromEntries r)) xs)"
  by (induction xs) (auto simp: storedReactions_reactionsObject)

lemma storedState_snapshotObject:
  "storedState (snapshotObject mr) = Typed (inEnumerationOrder mr)"
proof -
  have "distinct (map fst (inEnumerationOrder mr))"
    unfolding inEnumerationOrder_def by (simp only: map_fst_map_values distinct_fromEntries)
  then have "newMap (inEnumerationOrder mr) = inEnumerationOrder mr" by (rule newMap_distinct)
  then show ?thesis
    by (simp add: storedState_def snapshotObject_eq Object_entries_def collect_messages
        inEnumerationOrder_def del: map_map)
qed


lemma updateAllLoop_succeeds:
  assumes "list_all (\<lambda>el. case elementMessageId el of Inl err \<Rightarrow> False | Inr m \<Rightarrow> True) els"
  shows "fst (updateAllLoop done els st) = None"
  using assms
proof (induction els arbitrary: "done" st)
  case Nil
  then show ?case by simp
next
  case (Cons el els)
  then obtain messageId where m: "elementMessageId el = Inr messageId"
    by (cases "elementMessageId el") auto
  from Cons.prems have rest:
    "list_all (\<lambda>el. case elementMessageId el of Inl err \<Rightarrow> False | Inr m \<Rightarrow> True) els"
    by simp
  show ?case
  proof (cases "map_has (messageReactions st) messageId")
    case False
    with m Cons.IH [OF rest] show ?thesis by (simp add: Let_def)
  next
    case True
    obtain badges st' where "updateReactionDisplay messageId st = (badges, st')"
      by (cases "updateReactionDisplay messageId st")
    with m True Cons.IH [OF rest] show ?thesis by (simp add: Let_def)
  qed
qed

lemma redrawAfterLoad_succeeds:
  assumes "redrawSucceeds st"
  shows "messageReactions (redrawAfterLoad st) = messageReactions st"
proof -
  obtain r st' where ua: "updateAllReactionDisplays st = (r, st')"
    by (cases "updateAllReactionDisplays st")
  from assms have "fst (updateAllReactionDisplays st) = None"
    unfolding redrawSucceeds_def updateAllReactionDisplays_def by (rule updateAllLoop_succeeds)
  with ua have r: "r = None" by simp
  from updateAllReactionDisplays_messageReactions [of st] ua
  have "messageReactions st' = messageReactions st" by simp
  with ua r show ?thesis by (simp add: redrawAfterLoad_def)
qed

lemma load_stored_snapshot:
  assumes "localStorage st (storageKey tok) = Some (JSON_stringify (snapshotObject mr))"
  shows "loadReactionsFromStorage tok st
     = redrawAfterLoad (st\<lparr>messageReactions := inEnumerationOrder mr\<rparr>)"
proof -
  let ?saved = "JSON_stringify (snapshotObject mr)"
  have nonempty: "?saved \<noteq> []"
    by (simp add: snapshotObject_def)
  have parsed: "JSON_parse ?saved = Some (snapshotObject mr)"
    by (rule JSON_parse_stringify) (rule plain_snapshotObject)
  show ?thesis
    unfolding loadReactionsFromStorage_def
    by (simp only: assms option.case nonempty if_False parsed storedState_snapshotObject
        decoded.case)
qed

lemma load_after_save:
  "loadReactionsFromStorage tok (saveToLocalStorage tok st)
     = redrawAfterLoad ((saveToLocalStorage tok st)
         \<lparr>messageReactions := inEnumerationOrder (messageReactions st)\<rparr>)"
  by (rule load_stored_snapshot) (simp add: saveToLocalStorage_def)

lemma sorted_keyBefore_plain_keys:
  assumes "distinct ks" and "\<forall>k\<in>set ks. array_index k = None"
  shows "sorted_wrt keyBefore ks"
  using assms by (induction ks) (auto simp: keyBefore_def)

lemma Object_fromEntries_plain_keys:
  assumes "distinct (map fst es)" and "\<forall>k\<in>set (map fst es). array_index k = None"
  shows "Object_fromEntries es = es"
  using sorted_keyBefore_plain_keys [OF assms]
  by (intro Object_fromEntries_ordered) (simp add: enumerationOrder_def)

lemma inEnumerationOrder_plain_keys:
  assumes "wellFormed mr" and "noIndexKeys mr"
  shows "inEnumerationOrder mr = mr"
proof -
  from assms have "Object_fromEntries mr = mr"
    by (intro Object_fromEntries_plain_keys)
       (auto simp: wellFormed_def noIndexKeys_def list_all_iff)
  moreover have "map (\<lambda>(m, r). (m, Object_fromEntries r)) mr = mr"
  proof (rule map_idI)
    fix p assume p: "p \<in> set mr"
    obtain m r where mr: "p = (m, r)" by (cases p)
    from p mr assms have "distinct (map fst r)" and "list_all (\<lambda>(e, us). array_index e = None) r"
      by (auto simp: wellFormed_def noIndexKeys_def list_all_iff)
    then have "Object_fromEntries r = r"
      by (intro Object_fromEntries_plain_keys) (auto simp: list_all_iff)
    with mr show "(case p of (m, r) \<Rightarrow> (m, Object_fromEntries r)) = p" by simp
  qed
  ultimately show ?thesis by (simp add: inEnumerationOrder_def)
qed

lemma sameReactions_inEnumerationOrder:
  assumes "wellFormed mr"
  shows "sameReactions (inEnumerationOrder mr) mr"
  unfolding sameReactions_def
proof
  fix m
  from assms have d: "distinct (map fst mr)" by (simp add: wellFormed_def)
  have "map_of (inEnumerationOrder mr) m = map_option Object_fromEntries (map_of mr m)"
    unfolding inEnumerationOrder_def
    by (simp only: map_of_map_values map_of_Object_fromEntries [OF d])
  moreover have "map_of (Object_fromEntries r) = map_of r" if "map_of mr m = Some r" for r
  proof -
    from that have "(m, r) \<in> set mr" by (rule map_of_SomeD)
    with assms have "distinct (map fst r)" by (auto simp: wellFormed_def list_all_iff)
    then show ?thesis by (rule map_of_Object_fromEntries)
  qed
  ultimately show "map_option map_of (map_of (inEnumerationOrder mr) m)
      = map_option map_of (map_of mr m)"
    by (cases "map_of mr m") simp_all
qed

lemma scanned_redrawSucceeds: "scanned st \<Longrightarrow> redrawSucceeds st"
  unfolding scanned_def redrawSucceeds_def list_all_iff
  by (auto simp: hasIdentity_def elementMessageId_def split: option.splits)

lemma addReactionButton_identity:
  assumes "addReactionButton el st = (None, el', st')" and "data_hasReactions el \<longrightarrow> hasIdentity el"
  shows "hasIdentity el'"
proof (cases "data_hasReactions el")
  case True
  with assms show ?thesis by (simp add: addReactionButton_def)
next
  case False
  with assms(1) obtain messageId where g: "generateMessageId el = Inr messageId"
    by (cases "generateMessageId el") (auto simp: addReactionButton_def)
  then have ne: "messageId \<noteq> []"
    by (auto simp: generateMessageId_def Let_def js_def split: option.splits)
  have "data_messageId el' = Some messageId"
    using assms(1) False g
    by (auto simp: addReactionButton_def Let_def split: prod.splits)
  with ne show ?thesis by (simp add: hasIdentity_def)
qed

lemma checkLoop_scanned:
  assumes "checkLoop done els st = (None, st')" and "list_all hasIdentity done"
    and "list_all (\<lambda>el. data_hasReactions el \<longrightarrow> hasIdentity el) els"
  shows "scanned st'"
  using assms
proof (induction els arbitrary: "done" st)
  case Nil
  then show ?case by (auto simp: scanned_def)
next
  case (Cons el els)
  show ?case
  proof (cases "data_hasReactions el")
    case True
    with Cons.prems have "checkLoop (done @ [el]) els st = (None, st')"
      and "list_all hasIdentity (done @ [el])" by simp_all
    with Cons.IH Cons.prems(3) show ?thesis by simp
  next
    case False
    obtain r el' st1 where arb: "addReactionButton el st = (r, el', st1)"
      by (cases "addReactionButton el st") auto
    with False Cons.prems(1) have r: "r = None" and rest: "checkLoop (done @ [el']) els st1 = (None, st')"
      by (cases r; simp)+
    from addReactionButton_identity [OF arb [unfolded r]] False have "hasIdentity el'" by simp
    with Cons.prems(2) have "list_all hasIdentity (done @ [el'])" by simp
    with Cons.IH [OF rest] Cons.prems(3) show ?thesis by simp
  qed
qed

lemma scan_establishes_scanned:
  assumes "checkAndAddReactionButtons st = (None, st')"
    and "list_all (\<lambda>el. data_hasReactions el \<longrightarrow> hasIdentity el) (document st)"
  shows "scanned st'"
  using assms unfolding checkAndAddReactionButtons_def
  by (intro checkLoop_scanned [of "[]" "document st" st st']) simp_all

text \<open>
  Claim C6.  What \<open>saveToLocalStorage\<close> writes for a session, \<open>loadReactionsFromStorage\<close>
  reads back: in any manager whose storage holds, under the key of the session, what the save
  of \<open>st\<close> put there (whatever table that manager has in memory, for instance the empty
  table of the manager constructed after a reload of the page), loading gives a table with
  the same messages, the same emojis under each message and the same reactor lists as the
  table of \<open>st\<close>.  The loaded table is the saved one in the enumeration order of object
  properties, hence the saved table itself when no message identity and no emoji is an array
  index.  The redraw that ends the load must not raise, which holds on a page that has been
  scanned (\<open>scan_establishes_scanned\<close>, \<open>scanned_redrawSucceeds\<close>).
\<close>

theorem C6_save_then_load:
  assumes "wellFormed (messageReactions st)"
    and "localStorage reloaded (storageKey tok)
           = localStorage (saveToLocalStorage tok st) (storageKey tok)"
    and "redrawSucceeds reloaded"
  shows "sameReactions
           (messageReactions (loadReactionsFromStorage tok reloaded))
           (messageReactions st)
       \<and> messageReactions (loadReactionsFromStorage tok reloaded)
           = inEnumerationOrder (messageReactions st)
       \<and> (noIndexKeys (messageReactions st) \<longrightarrow>
            messageReactions (loadReactionsFromStorage tok reloaded) = messageReactions st)"
proof -
  let ?st' = "reloaded\<lparr>messageReactions := inEnumerationOrder (messageReactions st)\<rparr>"
  from assms(2) have stored: "localStorage reloaded (storageKey tok)
      = Some (JSON_stringify (snapshotObject (messageReactions st)))"
    by (simp add: saveToLocalStorage_def)
  from assms(3) have "redrawSucceeds ?st'"
    by (simp add: redrawSucceeds_def)
  from redrawAfterLoad_succeeds [OF this]
  have l: "messageReactions (loadReactionsFromStorage tok reloaded)
      = inEnumerationOrder (messageReactions st)"
    by (simp add: load_stored_snapshot [OF stored])
  with sameReactions_inEnumerationOrder [OF assms(1)]
    inEnumerationOrder_plain_keys [OF assms(1)]
  show ?thesis by simp
qed

lemma load_resets_when_redraw_raises:
  "wellFormed (messageReactions ((newManager [brokenText] None (js ''alice''))
       \<lparr>messageReactions := [(js ''msg-1'', [(thumbsUp, [js ''alice''])])]\<rparr>))
   \<and> messageReactions (loadReactionsFromStorage (js ''default-session'')
        (saveToLocalStorage (js ''default-session'')
           ((newManager [brokenText] None (js ''alice''))
              \<lparr>messageReactions := [(js ''msg-1'', [(thumbsUp, [js ''alice''])])]\<rparr>))) = []
   \<and> \<not> sameReactions
        (messageReactions (loadReactionsFromStorage (js ''default-session'')
          (saveToLocalStorage (js ''default-session'')
             ((newManager [brokenText] None (js ''alice''))
                \<lparr>messageReactions := [(js ''msg-1'', [(thumbsUp, [js ''alice''])])]\<rparr>))))
        (messageReactions ((newManager [brokenText] None (js ''alice''))
           \<lparr>messageReactions := [(js ''msg-1'', [(thumbsUp, [js ''alice''])])]\<rparr>))"
proof -
  let ?st = "(newManager [brokenText] None (js ''alice''))
              \<lparr>messageReactions := [(js ''msg-1'', [(thumbsUp, [js ''alice''])])]\<rparr>"
  have gen: "elementMessageId brokenText = Inl URIError"
    by (simp add: elementMessageId_def generateMessageId_def brokenText_def textOrEmpty_def
        Let_def js_def is_unreserved_def is_alnum_def is_low_surrogate_def
        is_high_surrogate_def)
  have "messageReactions (redrawAfterLoad ((saveToLocalStorage (js ''default-session'') ?st)
         \<lparr>messageReactions := inEnumerationOrder (messageReactions ?st)\<rparr>)) = []"
    by (simp add: redrawAfterLoad_def updateAllReactionDisplays_def saveToLocalStorage_def
        newManager_def gen loadFailed_def console_log_def)
  then have l: "messageReactions (loadReactionsFromStorage (js ''default-session'')
        (saveToLocalStorage (js ''default-session'') ?st)) = []"
    by (simp only: load_after_save)
  have w: "wellFormed (messageReactions ?st)" by (simp add: wellFormed_def)
  have "\<not> sameReactions [] (messageReactions ?st)"
    by (auto simp: sameReactions_def dest: spec [of _ "js ''msg-1''"])
  with l w show ?thesis by simp
qed

theorem C6_save_then_load_witness:
  "wellFormed (messageReactions ((newManager [] None (js ''alice''))
       \<lparr>messageReactions := [(js ''msg-1'', [(thumbsUp, [js ''alice'']), (heart, [js ''bob'', js ''alice''])]),
                              (js ''msg-2'', [])]\<rparr>))
   \<and> localStorage
         ((newManager [attachedMessage (js ''msg-1'')] None (js ''alice''))
            \<lparr>messageReactions := [(js ''msg-9'', [(heart, [js ''carol''])])],
             localStorage := localStorage (saveToLocalStorage (js ''default-session'')
               ((newManager [] None (js ''alice''))
                  \<lparr>messageReactions := [(js ''msg-1'', [(thumbsUp, [js ''alice'']), (heart, [js ''bob'', js ''alice''])]),
                              (js ''msg-2'', [])]\<rparr>))\<rparr>)
         (storageKey (js ''default-session''))
       = localStorage (saveToLocalStorage (js ''default-session'')
               ((newManager [] None (js ''alice''))
                  \<lparr>messageReactions := [(js ''msg-1'', [(thumbsUp, [js ''alice'']), (heart, [js ''bob'', js ''alice''])]),
                              (js ''msg-2'', [])]\<rparr>))
           (storageKey (js ''default-session''))
   \<and> redrawSucceeds
         ((newManager [attachedMessage (js ''msg-1'')] None (js ''alice''))
            \<lparr>messageReactions := [(js ''msg-9'', [(heart, [js ''carol''])])],
             localStorage := localStorage (saveToLocalStorage (js ''default-session'')
               ((newManager [] None (js ''alice''))
                  \<lparr>messageReactions := [(js ''msg-1'', [(thumbsUp, [js ''alice'']), (heart, [js ''bob'', js ''alice''])]),
                              (js ''msg-2'', [])]\<rparr>))\<rparr>)
   \<and> noIndexKeys [(js ''msg-1'', [(thumbsUp, [js ''alice'']), (heart, [js ''bob'', js ''alice''])]),
                    (js ''msg-2'', [])]
   \<and> messageReactions (loadReactionsFromStorage (js ''default-session'')
         ((newManager [attachedMessage (js ''msg-1'')] None (js ''alice''))
            \<lparr>messageReactions := [(js ''msg-9'', [(heart, [js ''carol''])])],
             localStorage := localStorage (saveToLocalStorage (js ''default-session'')
               ((newManager [] None (js ''alice''))
                  \<lparr>messageReactions := [(js ''msg-1'', [(thumbsUp, [js ''alice'']), (heart, [js ''bob'', js ''alice''])]),
                              (js ''msg-2'', [])]\<rparr>))\<rparr>))
       = [(js ''msg-1'', [(thumbsUp, [js ''alice'']), (heart, [js ''bob'', js ''alice''])]),
          (js ''msg-2'', [])]"
proof -
  let ?mr = "[(js ''msg-1'', [(thumbsUp, [js ''alice'']), (heart, [js ''bob'', js ''alice''])]),
              (js ''msg-2'', [])]"
  let ?st = "(newManager [] None (js ''alice''))\<lparr>messageReactions := ?mr\<rparr>"
  let ?reloaded = "(newManager [attachedMessage (js ''msg-1'')] None (js ''alice''))
       \<lparr>messageReactions := [(js ''msg-9'', [(heart, [js ''carol''])])],
        localStorage := localStorage (saveToLocalStorage (js ''default-session'') ?st)\<rparr>"
  have w: "wellFormed (messageReactions ?st)"
    by (simp add: wellFormed_def js_def thumbsUp_def heart_def)
  have k: "localStorage ?reloaded (storageKey (js ''default-session''))
      = localStorage (saveToLocalStorage (js ''default-session'') ?st)
          (storageKey (js ''default-session''))"
    by simp
  have r: "redrawSucceeds ?reloaded"
    by (simp add: redrawSucceeds_def newManager_def attachedMessage_def elementMessageId_def
        js_def)
  have n: "noIndexKeys (messageReactions ?st)"
    by (simp add: noIndexKeys_def array_index_def is_digit_def js_def thumbsUp_def heart_def)
  from C6_save_then_load [OF w k r]
  have "noIndexKeys (messageReactions ?st) \<longrightarrow>
      messageReactions (loadReactionsFromStorage (js ''default-session'') ?reloaded)
        = messageReactions ?st"
    by blast
  with n have "messageReactions (loadReactionsFromStorage (js ''default-session'') ?reloaded)
      = messageReactions ?st"
    by blast
  with w k r n show ?thesis by simp
qed


section \<open>Evaluating the parser on literals\<close>

lemma parse_value_unfold:
  "parse_value n s =
     (if n = 0 then None else
      (case skip_ws s of
        [] \<Rightarrow> None
      | c # cs \<Rightarrow>
          if c = 34 then map_option (\<lambda>(t, r). (JStr t, r)) (parse_string cs)
          else if c = 91 then
            (case skip_ws cs of
               [] \<Rightarrow> None
             | d # ds \<Rightarrow> if d = 93 then Some (JArr [], ds)
                         else map_option (\<lambda>(vs, r). (JArr vs, r)) (parse_elements (n - 1) cs))
          else if c = 123 then
            (case skip_ws cs of
               [] \<Rightarrow> None
             | d # ds \<Rightarrow> if d = 125 then Some (JObj [], ds)
                         else map_option (\<lambda>(ms, r). (JObj (Object_fromEntries ms), r))
                                (parse_members (n - 1) cs))
          else parse_literal (c # cs)))"
  by (cases n) (simp_all cong: if_cong list.case_cong option.case_cong)

lemma parse_elements_unfold:
  "parse_elements n s =
     (if n = 0 then None else
     (case parse_value (n - 1) s of
        None \<Rightarrow> None
      | Some (v, r) \<Rightarrow>
          (case skip_ws r of
             [] \<Rightarrow> None
           | c # cs \<Rightarrow>
               if c = 44 then map_option (\<lambda>(vs, r'). (v # vs, r')) (parse_elements (n - 1) cs)
               else if c = 93 then Some ([v], cs)
               else None)))"
  by (cases n) (simp_all cong: if_cong list.case_cong option.case_cong)

lemma parse_members_unfold:
  "parse_members n s =
     (if n = 0 then None else
     (case skip_ws s of
        [] \<Rightarrow> None
      | q # qs \<Rightarrow>
          if q = 34 then
            (case parse_string qs of
               None \<Rightarrow> None
             | Some (k, r) \<Rightarrow>
                 (case skip_ws r of
                    [] \<Rightarrow> None
                  | c # cs \<Rightarrow>
                      if c = 58 then
                        (case parse_value (n - 1) cs of
                           None \<Rightarrow> None
                         | Some (v, r') \<Rightarrow>
                             (case skip_ws r' of
                                [] \<Rightarrow> None
                              | d # ds \<Rightarrow>
                                  if d = 44 then
                                    map_option (\<lambda>(ms, r''). ((k, v) # ms, r'')) (parse_members (n - 1) ds)
                                  else if d = 125 then Some ([(k, v)], ds)
                                  else None))
                      else None))
          else None))"
  by (cases n) (simp_all cong: if_cong list.case_cong option.case_cong)

lemmas json_eval = JSON_parse_def parse_value_unfold parse_elements_unfold parse_members_unfold
  skip_ws_def is_ws_def parse_literal_def parse_number_def parse_int_part_def parse_frac_part_def
  parse_exp_part_def digits_def is_digit_def hex4_def hex_val_def unescape_def js_def
  Object_fromEntries_def prop_set_def array_index_def read_nat_def thumbsUp_def

lemma claimedPush_parsed:
  "JSON_parse claimedPush =
     Some (JObj [(js ''type'', JStr (js ''update_reactions'')),
                 (js ''data'', JObj [(js ''reactions'',
                    JStr (js ''[[\"msg-1\",[[\"'' @ thumbsUp @ js ''\",[\"alice\"]]]]]''))])])"
  unfolding claimedPush_def by (simp add: json_eval)

lemma claimedPush_table:
  "JSON_parse (js ''[[\"msg-1\",[[\"'' @ thumbsUp @ js ''\",[\"alice\"]]]]]'')
     = Some (JArr [JArr [JStr (js ''msg-1''), JArr [JArr [JStr thumbsUp, JArr [JStr (js ''alice'')]]]]])"
  by (simp add: json_eval)


section \<open>Snapshots pushed by the relay\<close>

subsection \<open>The table built from a list of entries\<close>

lemma keys_foldl_map_set:
  "map fst (foldl (\<lambda>m (k, v). map_set k v m) acc es)
     = map fst acc @ firstKeys (filter (\<lambda>k. k \<notin> set (map fst acc)) (map fst es))"
proof (induction es arbitrary: acc)
  case Nil
  then show ?case by simp
next
  case (Cons p es)
  obtain k v where p: "p = (k, v)" by (cases p)
  show ?case
  proof (cases "k \<in> set (map fst acc)")
    case True
    then have "map fst (map_set k v acc) = map fst acc"
      by (simp add: map_set_def update_keys)
    with Cons.IH [of "map_set k v acc"] True show ?thesis by (simp add: p)
  next
    case False
    then have keys: "map fst (map_set k v acc) = map fst acc @ [k]"
      by (simp add: map_set_def update_keys)
    have "filter (\<lambda>k'. k' \<notin> set (map fst acc @ [k])) (map fst es)
        = filter (\<lambda>k'. k' \<noteq> k) (filter (\<lambda>k'. k' \<notin> set (map fst acc)) (map fst es))"
      by (induction es) auto
    with Cons.IH [of "map_set k v acc"] keys False show ?thesis by (simp add: p)
  qed
qed

lemma map_of_foldl_map_set:
  "map_of (foldl (\<lambda>m (k, v). map_set k v m) acc es) k
     = (case latest es k of Some v \<Rightarrow> Some v | None \<Rightarrow> map_of acc k)"
proof (induction es arbitrary: acc)
  case Nil
  then show ?case by simp
next
  case (Cons p es)
  obtain k' v where p: "p = (k', v)" by (cases p)
  from Cons.IH [of "map_set k' v acc"] show ?case
    by (simp add: p map_set_def update_conv' split: option.split)
qed

lemma distinct_foldl_map_set:
  "distinct (map fst acc) \<Longrightarrow> distinct (map fst (foldl (\<lambda>m (k, v). map_set k v m) acc es))"
  by (induction es arbitrary: acc) (auto simp: map_set_def distinct_update)

lemma entries_from_keys:
  assumes "distinct (map fst xs)"
  shows "xs = map (\<lambda>k. (k, the (map_of xs k))) (map fst xs)"
proof -
  have "(fst p, the (map_of xs (fst p))) = p" if "p \<in> set xs" for p
  proof -
    obtain k v where p: "p = (k, v)" by (cases p)
    with that assms have "map_of xs k = Some v" by (simp add: map_of_is_SomeI)
    with p show ?thesis by simp
  qed
  then have "map (\<lambda>p. (fst p, the (map_of xs (fst p)))) xs = xs" by (intro map_idI)
  then show ?thesis by (simp add: comp_def)
qed

lemma newMap_entriesTable: "newMap es = entriesTable es"
proof -
  have d: "distinct (map fst (newMap es))"
    unfolding newMap_def by (rule distinct_foldl_map_set) simp
  have k: "map fst (newMap es) = firstKeys (map fst es)"
    using keys_foldl_map_set [of "[]" es] by (simp add: newMap_def)
  have m: "map_of (newMap es) k = latest es k" for k
    using map_of_foldl_map_set [of "[]" es k] by (simp add: newMap_def split: option.split)
  from entries_from_keys [OF d] have "newMap es = map (\<lambda>k. (k, the (map_of (newMap es) k))) (map fst (newMap es))" .
  then show ?thesis by (simp add: k m entriesTable_def)
qed

lemma tableOf_distinct:
  assumes "distinct (map fst recs)" and "\<forall>(m, rs) \<in> set recs. distinct (map fst rs)"
  shows "tableOf recs = recs"
proof -
  have "map (\<lambda>(m, rs). (m, entriesTable rs)) recs = recs"
    using assms(2) by (intro map_idI) (auto simp: newMap_entriesTable [symmetric] newMap_distinct)
  with assms(1) show ?thesis
    by (simp add: tableOf_def newMap_entriesTable [symmetric] newMap_distinct)
qed

subsection \<open>What the handler reads from an array of records\<close>

lemma parsedReaction_record:
  "isReactionRecord r rec \<Longrightarrow> parsedReaction r = Typed rec"
  by (cases "(r, rec)" rule: isReactionRecord.cases)
     (simp_all add: parsedReaction_def strings_of_JStr)

lemma collect_reactions:
  "list_all2 isReactionRecord rs recs \<Longrightarrow> collect (map parsedReaction rs) = Typed recs"
  by (induction rule: list_all2_induct) (simp_all add: parsedReaction_record)

lemma parsedMessageReaction_record:
  assumes "isMessageRecord d (m, rs)"
  shows "parsedMessageReaction d = Typed (m, entriesTable rs)"
proof (cases d)
  case (JObj ps)
  with assms obtain rv where
    "map_of ps (js ''messageId'') = Some (JStr m)"
    "map_of ps (js ''reactions'') = Some (JArr rv)" "list_all2 isReactionRecord rv rs"
    by (auto split: option.splits json.splits)
  with JObj collect_reactions [of rv rs] show ?thesis
    by (simp add: parsedMessageReaction_def newMap_entriesTable)
qed (use assms in simp_all)

lemma collect_messages_records:
  "list_all2 isMessageRecord ds recs \<Longrightarrow>
     collect (map parsedMessageReaction ds) = Typed (map (\<lambda>(m, rs). (m, entriesTable rs)) recs)"
proof (induction rule: list_all2_induct)
  case Nil
  then show ?case by simp
next
  case (Cons d ds rec recs)
  obtain m rs where "rec = (m, rs)" by (cases rec)
  with Cons parsedMessageReaction_record [of d m rs] show ?case by simp
qed

lemma parsedState_records:
  assumes "isRecords parsed recs"
  shows "parsedState parsed = Typed (tableOf recs)"
proof (cases parsed)
  case (JArr ds)
  with assms collect_messages_records [of ds recs] show ?thesis
    by (simp add: parsedState_def tableOf_def newMap_entriesTable)
qed (use assms in simp_all)

lemma isRecords_recordsJSON: "isRecords (recordsJSON recs) recs"
proof -
  have r: "list_all2 isReactionRecord
      (map (\<lambda>(emoji, users). JObj [(js ''emoji'', JStr emoji), (js ''users'', JArr (map JStr users))]) rs)
      rs" for rs
    by (auto simp: list_all2_map1 js_def intro!: list_all2_same [THEN iffD2])
  show ?thesis
    unfolding recordsJSON_def
    by (auto simp: list_all2_map1 r js_def intro!: list_all2_same [THEN iffD2])
qed

lemma plain_recordsJSON: "plain (recordsJSON recs)"
  by (auto simp: recordsJSON_def enumerationOrder_def keyBefore_def array_index_def
      is_digit_def js_def)

lemma pushFrame_parsed:
  "JSON_parse (pushFrame recs)
     = Some (JObj [(js ''type'', JStr (js ''update_reactions'')),
                   (js ''reactions'', JStr (JSON_stringify (recordsJSON recs)))])"
  unfolding pushFrame_def
  by (rule JSON_parse_stringify)
     (simp add: enumerationOrder_def keyBefore_def array_index_def is_digit_def js_def)

subsection \<open>The handler\<close>

lemma updateFromText_typed:
  assumes "JSON_parse s = Some parsed" and "parsedState parsed = Typed mr"
  shows "messageReactions (updateFromText s st) = mr"
proof -
  obtain r st' where ua: "updateAllReactionDisplays (st\<lparr>messageReactions := mr\<rparr>) = (r, st')"
    by (cases "updateAllReactionDisplays (st\<lparr>messageReactions := mr\<rparr>)")
  with updateAllReactionDisplays_messageReactions [of "st\<lparr>messageReactions := mr\<rparr>"]
  have "messageReactions st' = mr" by simp
  with assms ua show ?thesis
    by (cases r) (simp_all add: updateFromText_def updateFailed_def console_log_def)
qed

lemma updateFromText_malformed:
  assumes "JSON_parse s = None"
  shows "updateFromText s st = console_log ''Error updating reactions state'' st"
  using assms by (simp add: updateFromText_def updateFailed_def)

lemma undefined_not_JSON: "JSON_parse (js ''undefined'') = None"
  by (simp add: json_eval)

lemma push_of_records:
  assumes "JSON_parse eventData = Some (JObj ps)"
    and "map_of ps (js ''type'') = Some (JStr (js ''update_reactions''))"
    and "map_of ps (js ''reactions'') = Some (JStr s)"
    and "JSON_parse s = Some parsed"
    and "isRecords parsed recs"
  shows "messageReactions (handleWebSocketMessage eventData st) = tableOf recs"
  using assms(1-3) updateFromText_typed [OF assms(4) parsedState_records [OF assms(5)], of st]
  by (simp add: handleWebSocketMessage_def updateReactionsState_def)

lemma push_without_reactions:
  assumes "JSON_parse eventData = Some (JObj ps)"
    and "map_of ps (js ''type'') = Some (JStr (js ''update_reactions''))"
    and "map_of ps (js ''reactions'') = None"
  shows "handleWebSocketMessage eventData st
       = console_log ''Error updating reactions state'' st"
  using assms
  by (simp add: handleWebSocketMessage_def updateReactionsState_def
      updateFromText_malformed [OF undefined_not_JSON])

lemma pushFrame_table:
  "messageReactions (handleWebSocketMessage (pushFrame recs) st) = tableOf recs"
proof -
  have "JSON_parse (JSON_stringify (recordsJSON recs)) = Some (recordsJSON recs)"
    by (rule JSON_parse_stringify) (rule plain_recordsJSON)
  from push_of_records [OF pushFrame_parsed _ _ this isRecords_recordsJSON]
  show ?thesis by (simp add: js_def)
qed

text \<open>
  Claim C2, as amended.  Take an inbound frame that parses to an object whose \<open>type\<close> is
  \<open>update_reactions\<close>.  If its own \<open>reactions\<close> property (at the top level of the frame,
  not under \<open>data\<close>) is a string that parses to an array of records
  \<open>{messageId, reactions: [{emoji, users}]}\<close>, with strings for \<open>messageId\<close> and
  \<open>emoji\<close> and an array of strings for \<open>users\<close>, the handler replaces the whole reaction
  state by the table of those records, whatever the state was: the message identities in the
  order of their first record, each with the emojis of its last record, the emojis in the
  order of their first record, each with the users of its last record.  If the frame has no
  \<open>reactions\<close> property of its own, as a frame of the form \<open>{type, data: {reactions}}\<close>,
  the handler logs an error and leaves the manager as it was.  For every list of records
  there is such a frame: the serialisation \<open>pushFrame\<close> of the records is one.
\<close>

theorem C2_push_replaces_state:
  assumes "JSON_parse eventData = Some (JObj ps)"
    and "map_of ps (js ''type'') = Some (JStr (js ''update_reactions''))"
  shows "(\<forall>s parsed recs.
            map_of ps (js ''reactions'') = Some (JStr s) \<and> JSON_parse s = Some parsed
            \<and> isRecords parsed recs
            \<longrightarrow> messageReactions (handleWebSocketMessage eventData st) = tableOf recs)
       \<and> (map_of ps (js ''reactions'') = None \<longrightarrow>
            handleWebSocketMessage eventData st
              = console_log ''Error updating reactions state'' st)
       \<and> (\<forall>recs. messageReactions (handleWebSocketMessage (pushFrame recs) st) = tableOf recs)"
  using push_of_records [OF assms] push_without_reactions [OF assms] pushFrame_table
  by blast

lemma twoRecords_parsed:
  "JSON_parse twoRecords
     = Some (JArr [JObj [(js ''messageId'', JStr (js ''msg-1'')),
                         (js ''reactions'',
                          JArr [JObj [(js ''emoji'', JStr thumbsUp),
                                      (js ''users'', JArr [JStr (js ''alice''), JStr (js ''bob'')])],
                                JObj [(js ''emoji'', JStr heart),
                                      (js ''users'', JArr [JStr (js ''carol'')])]])],
                   JObj [(js ''messageId'', JStr (js ''msg-2'')),
                         (js ''reactions'', JArr [])]])"
  unfolding twoRecords_def by (simp add: json_eval heart_def)

lemma relayPushTwo_parsed:
  "JSON_parse relayPushTwo
     = Some (JObj [(js ''type'', JStr (js ''update_reactions'')),
                   (js ''reactions'', JStr twoRecords)])"
  unfolding relayPushTwo_def twoRecords_def by (simp add: json_eval heart_def)

theorem C2_push_replaces_state_witness:
  "JSON_parse relayPushTwo
     = Some (JObj [(js ''type'', JStr (js ''update_reactions'')),
                   (js ''reactions'', JStr twoRecords)])
   \<and> isRecords
        (JArr [JObj [(js ''messageId'', JStr (js ''msg-1'')),
                     (js ''reactions'',
                      JArr [JObj [(js ''emoji'', JStr thumbsUp),
                                  (js ''users'', JArr [JStr (js ''alice''), JStr (js ''bob'')])],
                            JObj [(js ''emoji'', JStr heart),
                                  (js ''users'', JArr [JStr (js ''carol'')])]])],
               JObj [(js ''messageId'', JStr (js ''msg-2'')),
                     (js ''reactions'', JArr [])]])
        [(js ''msg-1'', [(thumbsUp, [js ''alice'', js ''bob'']), (heart, [js ''carol''])]),
         (js ''msg-2'', [])]
   \<and> messageReactions (handleWebSocketMessage relayPushTwo
         ((newManager [] None (js ''alice''))
            \<lparr>messageReactions := [(js ''msg-7'', [(heart, [js ''bob''])])]\<rparr>))
       = [(js ''msg-1'', [(thumbsUp, [js ''alice'', js ''bob'']), (heart, [js ''carol''])]),
          (js ''msg-2'', [])]
   \<and> handleWebSocketMessage claimedPush
         ((newManager [] None (js ''alice''))
            \<lparr>messageReactions := [(js ''msg-7'', [(heart, [js ''bob''])])]\<rparr>)
       = console_log ''Error updating reactions state''
           ((newManager [] None (js ''alice''))
              \<lparr>messageReactions := [(js ''msg-7'', [(heart, [js ''bob''])])]\<rparr>)
   \<and> messageReactions (handleWebSocketMessage
         (pushFrame [(js ''msg-1'', [(thumbsUp, [js ''alice'']), (heart, [js ''bob'']),
                                      (thumbsUp, [js ''carol''])]),
                     (js ''msg-2'', []),
                     (js ''msg-1'', [(heart, [js ''dave'', js ''erin''])])])
         ((newManager [] None (js ''alice''))
            \<lparr>messageReactions := [(js ''msg-7'', [(heart, [js ''bob''])])]\<rparr>))
       = [(js ''msg-1'', [(heart, [js ''dave'', js ''erin''])]), (js ''msg-2'', [])]"
proof -
  let ?st = "(newManager [] None (js ''alice''))
      \<lparr>messageReactions := [(js ''msg-7'', [(heart, [js ''bob''])])]\<rparr>"
  let ?ps = "[(js ''type'', JStr (js ''update_reactions'')), (js ''reactions'', JStr twoRecords)]"
  let ?parsed = "JArr [JObj [(js ''messageId'', JStr (js ''msg-1'')),
                     (js ''reactions'',
                      JArr [JObj [(js ''emoji'', JStr thumbsUp),
                                  (js ''users'', JArr [JStr (js ''alice''), JStr (js ''bob'')])],
                            JObj [(js ''emoji'', JStr heart),
                                  (js ''users'', JArr [JStr (js ''carol'')])]])],
               JObj [(js ''messageId'', JStr (js ''msg-2'')),
                     (js ''reactions'', JArr [])]]"
  let ?recs = "[(js ''msg-1'', [(thumbsUp, [js ''alice'', js ''bob'']), (heart, [js ''carol''])]),
         (js ''msg-2'', [])]"
  let ?qs = "[(js ''type'', JStr (js ''update_reactions'')),
              (js ''data'', JObj [(js ''reactions'',
                 JStr (js ''[[\"msg-1\",[[\"'' @ thumbsUp @ js ''\",[\"alice\"]]]]]''))])]"
  have h1: "JSON_parse relayPushTwo = Some (JObj ?ps)" by (rule relayPushTwo_parsed)
  have h2: "map_of ?ps (js ''type'') = Some (JStr (js ''update_reactions''))" by simp
  have h3: "map_of ?ps (js ''reactions'') = Some (JStr twoRecords)" by (simp add: js_def)
  have h4: "JSON_parse twoRecords = Some ?parsed" by (rule twoRecords_parsed)
  have h5: "isRecords ?parsed ?recs" by (simp add: js_def)
  have t: "tableOf ?recs = ?recs"
    by (simp add: tableOf_def entriesTable_def js_def thumbsUp_def heart_def)
  have g1: "JSON_parse claimedPush = Some (JObj ?qs)" by (rule claimedPush_parsed)
  have g2: "map_of ?qs (js ''type'') = Some (JStr (js ''update_reactions''))" by simp
  have g3: "map_of ?qs (js ''reactions'') = None" by (simp add: js_def)
  have d: "tableOf [(js ''msg-1'', [(thumbsUp, [js ''alice'']), (heart, [js ''bob'']),
                                      (thumbsUp, [js ''carol''])]),
                     (js ''msg-2'', []),
                     (js ''msg-1'', [(heart, [js ''dave'', js ''erin''])])]
      = [(js ''msg-1'', [(heart, [js ''dave'', js ''erin''])]), (js ''msg-2'', [])]"
    by (simp add: tableOf_def entriesTable_def js_def thumbsUp_def heart_def)
  from C2_push_replaces_state [OF h1 h2, of ?st] h3 h4 h5 t
  have a: "messageReactions (handleWebSocketMessage relayPushTwo ?st) = ?recs"
    and c: "messageReactions (handleWebSocketMessage
         (pushFrame [(js ''msg-1'', [(thumbsUp, [js ''alice'']), (heart, [js ''bob'']),
                                      (thumbsUp, [js ''carol''])]),
                     (js ''msg-2'', []),
                     (js ''msg-1'', [(heart, [js ''dave'', js ''erin''])])]) ?st)
       = [(js ''msg-1'', [(heart, [js ''dave'', js ''erin''])]), (js ''msg-2'', [])]"
    using d by (metis, metis)
  from C2_push_replaces_state [OF g1 g2, of ?st] g3
  have b: "handleWebSocketMessage claimedPush ?st
      = console_log ''Error updating reactions state'' ?st"
    by blast
  from h1 h5 a b c show ?thesis by simp
qed

text \<open>
  Claim C2 as stated fails twice on its own example.  The handler reads \<open>data.reactions\<close>
  of the parsed frame, which for the envelope \<open>{type, data: {reactions}}\<close> is
  \<open>undefined\<close>; \<open>JSON.parse(undefined)\<close> raises, the error is caught, and the state stays.
  And a table written as nested pairs has no \<open>messageId\<close> and \<open>reactions\<close> properties:
  \<open>data.reactions.map\<close> raises a TypeError.
\<close>

lemma pairs_table_rejected:
  "parsedState (JArr [JArr [JStr (js ''msg-1''),
      JArr [JArr [JStr thumbsUp, JArr [JStr (js ''alice'')]]]]]) = Throws"
  by (simp add: parsedState_def parsedMessageReaction_def)

theorem C2_counterexample:
  "messageReactions (handleWebSocketMessage claimedPush
      ((newManager [] None (js ''alice''))
         \<lparr>messageReactions := [(js ''msg-1'', [(heart, [js ''bob''])])]\<rparr>))
     = [(js ''msg-1'', [(heart, [js ''bob''])])]
   \<and> map_get (messageReactions (handleWebSocketMessage claimedPush
      ((newManager [] None (js ''alice''))
         \<lparr>messageReactions := [(js ''msg-1'', [(heart, [js ''bob''])])]\<rparr>))) (js ''msg-1'')
     \<noteq> Some [(thumbsUp, [js ''alice''])]"
proof -
  have u: "JSON_parse (js ''undefined'') = None" by (simp add: json_eval)
  have "messageReactions (handleWebSocketMessage claimedPush
      ((newManager [] None (js ''alice''))
         \<lparr>messageReactions := [(js ''msg-1'', [(heart, [js ''bob''])])]\<rparr>))
     = [(js ''msg-1'', [(heart, [js ''bob''])])]"
    by (simp add: handleWebSocketMessage_def claimedPush_parsed updateReactionsState_def
        updateFromText_malformed [OF u] console_log_def)
       (simp add: js_def)
  then show ?thesis by (simp add: map_get_def thumbsUp_def heart_def)
qed

section \<open>Malformed JSON\<close>

text \<open>
  Claim C9, as amended.  A frame that does not parse, and a frame whose nested
  \<open>reactions\<close> string does not parse, are caught and logged and leave the manager as it
  was.  A stored snapshot that does not parse is caught and logged and the reaction state is
  reset to empty.  The handlers return a manager in each case: nothing is raised.
\<close>

theorem C9_malformed_json:
  "(JSON_parse eventData = None \<longrightarrow>
      handleWebSocketMessage eventData st = console_log ''Error handling WebSocket message'' st)
   \<and> (JSON_parse eventData = Some (JObj ps)
        \<and> map_of ps (js ''type'') = Some (JStr (js ''update_reactions''))
        \<and> map_of ps (js ''reactions'') = Some (JStr s) \<and> JSON_parse s = None \<longrightarrow>
      handleWebSocketMessage eventData st = console_log ''Error updating reactions state'' st)
   \<and> (localStorage st (storageKey tok) = Some saved \<and> saved \<noteq> [] \<and> JSON_parse saved = None \<longrightarrow>
      loadReactionsFromStorage tok st
        = (console_log ''Error loading reactions'' st)\<lparr>messageReactions := []\<rparr>)"
  by (simp add: handleWebSocketMessage_def updateReactionsState_def updateFromText_malformed
      loadReactionsFromStorage_def loadFailed_def)

theorem C9_malformed_json_witness:
  "JSON_parse truncatedFrame = None
   \<and> handleWebSocketMessage truncatedFrame
         ((newManager [] None (js ''alice''))
            \<lparr>messageReactions := [(js ''msg-1'', [(thumbsUp, [js ''alice''])])]\<rparr>)
       = console_log ''Error handling WebSocket message''
           ((newManager [] None (js ''alice''))
              \<lparr>messageReactions := [(js ''msg-1'', [(thumbsUp, [js ''alice''])])]\<rparr>)
   \<and> handleWebSocketMessage brokenTable
         ((newManager [] None (js ''alice''))
            \<lparr>messageReactions := [(js ''msg-1'', [(thumbsUp, [js ''alice''])])]\<rparr>)
       = console_log ''Error updating reactions state''
           ((newManager [] None (js ''alice''))
              \<lparr>messageReactions := [(js ''msg-1'', [(thumbsUp, [js ''alice''])])]\<rparr>)
   \<and> messageReactions (loadReactionsFromStorage (js ''default-session'')
         ((newManager [] None (js ''alice''))
            \<lparr>messageReactions := [(js ''msg-1'', [(thumbsUp, [js ''alice''])])],
              localStorage := [storageKey (js ''default-session'') \<mapsto> js ''{\"msg-1\":'']\<rparr>))
       = []"
proof -
  let ?st = "(newManager [] None (js ''alice''))
            \<lparr>messageReactions := [(js ''msg-1'', [(thumbsUp, [js ''alice''])])]\<rparr>"
  let ?st' = "(newManager [] None (js ''alice''))
            \<lparr>messageReactions := [(js ''msg-1'', [(thumbsUp, [js ''alice''])])],
              localStorage := [storageKey (js ''default-session'') \<mapsto> js ''{\"msg-1\":'']\<rparr>"
  have f: "JSON_parse truncatedFrame = None"
    unfolding truncatedFrame_def by (simp add: json_eval)
  have b: "JSON_parse brokenTable
      = Some (JObj [(js ''type'', JStr (js ''update_reactions'')),
                    (js ''reactions'', JStr (js ''[{oops''))])"
    unfolding brokenTable_def by (simp add: json_eval)
  have b2: "map_of [(js ''type'', JStr (js ''update_reactions'')),
                    (js ''reactions'', JStr (js ''[{oops''))] (js ''type'')
              = Some (JStr (js ''update_reactions''))"
    by simp
  have b3: "map_of [(js ''type'', JStr (js ''update_reactions'')),
                    (js ''reactions'', JStr (js ''[{oops''))] (js ''reactions'')
              = Some (JStr (js ''[{oops''))"
    by (simp add: js_def)
  have b4: "JSON_parse (js ''[{oops'') = None" by (simp add: json_eval)
  have s1: "localStorage ?st' (storageKey (js ''default-session'')) = Some (js ''{\"msg-1\":'')"
    by simp
  have s2: "js ''{\"msg-1\":'' \<noteq> []" by (simp add: js_def)
  have s3: "JSON_parse (js ''{\"msg-1\":'') = None" by (simp add: json_eval)
  from C9_malformed_json [where eventData = truncatedFrame and st = ?st] f
  have c1: "handleWebSocketMessage truncatedFrame ?st
      = console_log ''Error handling WebSocket message'' ?st"
    by blast
  from C9_malformed_json [where eventData = brokenTable and st = ?st
      and ps = "[(js ''type'', JStr (js ''update_reactions'')),
                    (js ''reactions'', JStr (js ''[{oops''))]" and s = "js ''[{oops''"] b b2 b3 b4
  have c2: "handleWebSocketMessage brokenTable ?st
      = console_log ''Error updating reactions state'' ?st"
    by blast
  from C9_malformed_json [where st = ?st' and tok = "js ''default-session''"
      and saved = "js ''{\"msg-1\":''"] s1 s2 s3
  have c3: "loadReactionsFromStorage (js ''default-session'') ?st'
      = (console_log ''Error loading reactions'' ?st')\<lparr>messageReactions := []\<rparr>"
    by blast
  from f c1 c2 c3 show ?thesis by simp
qed

text \<open>
  Claim C9 as stated fails for inbound frames: the state is not reset, it is left as it was.
\<close>

theorem C9_counterexample:
  "JSON_parse truncatedFrame = None
   \<and> messageReactions (handleWebSocketMessage truncatedFrame
         ((newManager [] None (js ''alice''))
            \<lparr>messageReactions := [(js ''msg-1'', [(thumbsUp, [js ''alice''])])]\<rparr>))
       = [(js ''msg-1'', [(thumbsUp, [js ''alice''])])]
   \<and> messageReactions (handleWebSocketMessage truncatedFrame
         ((newManager [] None (js ''alice''))
            \<lparr>messageReactions := [(js ''msg-1'', [(thumbsUp, [js ''alice''])])]\<rparr>))
       \<noteq> []"
proof -
  have f: "JSON_parse truncatedFrame = None"
    unfolding truncatedFrame_def by (simp add: json_eval)
  then show ?thesis
    by (simp add: handleWebSocketMessage_def console_log_def)
qed


section \<open>The identity is a function of the three texts\<close>

lemma upper_hex_digit_byte: "d < 16 \<Longrightarrow> upper_hex_digit d < 256"
  by (simp add: upper_hex_digit_def)

lemma percent_bytes: "b < 256 \<Longrightarrow> list_all (\<lambda>c. c < 256) (percent b)"
proof -
  assume "b < 256"
  then have "b div 16 < 16" by (simp add: less_mult_imp_div_less)
  then show ?thesis by (simp add: percent_def upper_hex_digit_byte)
qed

lemma utf8_bytes:
  assumes "cp < 1114112"
  shows "list_all (\<lambda>b. b < 256) (utf8 cp)"
proof -
  have m: "x mod 64 < 64" for x :: nat by simp
  have a: "cp < 2048 \<Longrightarrow> cp div 64 < 32" by (simp add: less_mult_imp_div_less)
  have b: "cp < 65536 \<Longrightarrow> cp div 4096 < 16" by (simp add: less_mult_imp_div_less)
  have c: "cp div 262144 < 5" using assms by (simp add: less_mult_imp_div_less)
  have m1: "128 + cp mod 64 < 256" using m [of cp] by linarith
  have m2: "128 + cp div 64 mod 64 < 256" using m [of "cp div 64"] by linarith
  have m3: "128 + cp div 4096 mod 64 < 256" using m [of "cp div 4096"] by linarith
  show ?thesis
    using a b c m1 m2 m3 by (auto simp: utf8_def)
qed

lemma percent_encode_bytes:
  assumes "cp < 1114112"
  shows "list_all (\<lambda>c. c < 256) (percent_encode cp)"
proof -
  have "c < 256" if b: "b \<in> set (utf8 cp)" and c: "c \<in> set (percent b)" for b c
  proof -
    from utf8_bytes [OF assms] b have "b < 256" by (simp add: list_all_iff)
    from percent_bytes [OF this] c show ?thesis by (simp add: list_all_iff)
  qed
  then show ?thesis by (auto simp: percent_encode_def list_all_iff)
qed

lemma unreserved_byte: "is_unreserved c \<Longrightarrow> c < 256"
  by (auto simp: is_unreserved_def is_alnum_def js_def)

lemma surrogate_pair_code_point:
  assumes "is_high_surrogate c" and "is_low_surrogate d"
  shows "0x10000 + (c - 0xD800) * 1024 + (d - 0xDC00) < (1114112::nat)"
proof -
  from assms have "c - 0xD800 \<le> 1023" and "d - 0xDC00 \<le> 1023"
    by (auto simp: is_high_surrogate_def is_low_surrogate_def)
  then have "(c - 0xD800) * 1024 \<le> 1023 * 1024" by simp
  with \<open>d - 0xDC00 \<le> 1023\<close> show ?thesis by linarith
qed

lemma encodeURIComponent_bytes:
  assumes "codeUnits s" and "encodeURIComponent s = Some encoded"
  shows "list_all (\<lambda>c. c < 256) encoded"
  using assms
proof (induction s arbitrary: encoded rule: encodeURIComponent.induct)
  case 1
  then show ?case by simp
next
  case (2 c cs)
  from "2.prems"(1) have c: "c < 65536" and cs: "codeUnits cs" by (simp_all add: codeUnits_def)
  show ?case
  proof (cases "is_unreserved c")
    case True
    with "2.prems"(2) obtain r where r: "encodeURIComponent cs = Some r" "encoded = c # r"
      by auto
    from "2.IH"(1) [OF True cs r(1)] unreserved_byte [OF True] r(2) show ?thesis by simp
  next
    case False
    note unres = this
    show ?thesis
    proof (cases "is_low_surrogate c")
      case True
      with unres "2.prems"(2) show ?thesis by simp
    next
      case False
      note nlow = this
      show ?thesis
      proof (cases "is_high_surrogate c")
        case True
        with unres nlow "2.prems"(2) obtain d ds r where
          d: "cs = d # ds" "is_low_surrogate d" "encodeURIComponent ds = Some r"
            "encoded = percent_encode (0x10000 + (c - 0xD800) * 1024 + (d - 0xDC00)) @ r"
          by (cases cs) (auto split: if_splits)
        from cs d(1) have "codeUnits ds" by (simp add: codeUnits_def)
        from "2.IH"(2) [OF unres nlow True d(1) d(2) this d(3)]
          percent_encode_bytes [OF surrogate_pair_code_point [OF True d(2)]] d(4)
        show ?thesis by simp
      next
        case False
        with unres nlow "2.prems"(2) obtain r where
          r: "encodeURIComponent cs = Some r" "encoded = percent_encode c @ r"
          by auto
        from c have "c < 1114112" by simp
        from "2.IH"(3) [OF unres nlow False cs r(1)] percent_encode_bytes [OF this] r(2)
        show ?thesis by simp
      qed
    qed
  qed
qed

lemma codeUnits_append: "codeUnits (a @ b) = (codeUnits a \<and> codeUnits b)"
  by (simp add: codeUnits_def)

lemma generateMessageId_identityOf:
  assumes "containerTexts container = (user, text, timestamp)"
    and "codeUnits user" and "codeUnits text" and "codeUnits timestamp"
  shows "generateMessageId container =
     (case identityOf user text timestamp of
        None \<Rightarrow> Inl URIError
      | Some i \<Rightarrow> Inr (js ''msg-'' @ i))"
proof (cases "encodeURIComponent (user @ js ''-'' @ text @ js ''-'' @ timestamp)")
  case None
  with assms(1) show ?thesis
    by (simp add: generateMessageId_def identityOf_def containerTexts_def Let_def)
next
  case (Some encoded)
  from assms(2-4) have "codeUnits (user @ js ''-'' @ text @ js ''-'' @ timestamp)"
    by (simp add: codeUnits_append) (simp add: codeUnits_def js_def)
  from encodeURIComponent_bytes [OF this Some] have "btoa encoded = Some (base64 encoded)"
    by (simp add: btoa_def)
  with Some assms(1) show ?thesis
    by (simp add: generateMessageId_def identityOf_def containerTexts_def Let_def)
qed

lemma identityOf_shape:
  assumes "identityOf user text timestamp = Some i"
  shows "length i \<le> 32 \<and> list_all is_alnum i"
  using assms by (auto simp: identityOf_def list_all_iff dest: in_set_takeD)

text \<open>
  Claim C7.  The identity of a message is derived from the texts of its user-name,
  message-text and timestamp nodes alone, each the empty text when the node is absent: the
  three are joined with \<open>-\<close>, the result is percent-encoded and then base64-encoded, every
  character that is not a letter or a digit is dropped and at most 32 characters are kept.
  The identity returned is that string behind the prefix \<open>msg-\<close>; two elements with the same
  three texts get the same result.  When the joined text holds an unpaired surrogate the
  percent-encoding raises \<open>URIError\<close> and no identity is returned; the base64 step cannot
  fail.  The texts are strings of UTF-16 code units.
\<close>

theorem C7_identity_derivation:
  assumes "containerTexts container = (user, text, timestamp)"
    and "codeUnits user" and "codeUnits text" and "codeUnits timestamp"
  shows "generateMessageId container =
           (case identityOf user text timestamp of
              None \<Rightarrow> Inl URIError
            | Some i \<Rightarrow> Inr (js ''msg-'' @ i))
       \<and> (\<forall>i. identityOf user text timestamp = Some i \<longrightarrow> length i \<le> 32 \<and> list_all is_alnum i)
       \<and> (\<forall>other. containerTexts other = (user, text, timestamp)
             \<longrightarrow> generateMessageId other = generateMessageId container)"
proof (intro conjI allI impI)
  show "generateMessageId container =
           (case identityOf user text timestamp of
              None \<Rightarrow> Inl URIError
            | Some i \<Rightarrow> Inr (js ''msg-'' @ i))"
    using assms by (rule generateMessageId_identityOf)
  fix i assume "identityOf user text timestamp = Some i"
  then show "length i \<le> 32" and "list_all is_alnum i"
    using identityOf_shape by blast+
next
  fix other assume "containerTexts other = (user, text, timestamp)"
  from generateMessageId_identityOf [OF this assms(2-4)]
    generateMessageId_identityOf [OF assms]
  show "generateMessageId other = generateMessageId container" by simp
qed

lemma plainMessage_identity:
  "generateMessageId plainMessage = Inr (js ''msg-Ym9iLWhpLTEwJTNBMDA'')"
  by (simp add: generateMessageId_def plainMessage_def textOrEmpty_def Let_def js_def
      is_unreserved_def is_alnum_def is_low_surrogate_def is_high_surrogate_def
      percent_encode_def utf8_def percent_def upper_hex_digit_def btoa_def base64_digit_def)

theorem C7_identity_derivation_witness:
  "containerTexts plainMessage = (js ''bob'', js ''hi'', js ''10:00'')
   \<and> codeUnits (js ''bob'') \<and> codeUnits (js ''hi'') \<and> codeUnits (js ''10:00'')
   \<and> identityOf (js ''bob'') (js ''hi'') (js ''10:00'') = Some (js ''Ym9iLWhpLTEwJTNBMDA'')
   \<and> generateMessageId plainMessage = Inr (js ''msg-Ym9iLWhpLTEwJTNBMDA'')
   \<and> generateMessageId (plainMessage\<lparr>data_hasReactions := True\<rparr>)
       = generateMessageId plainMessage"
proof -
  have t: "containerTexts plainMessage = (js ''bob'', js ''hi'', js ''10:00'')"
    by (simp add: containerTexts_def plainMessage_def textOrEmpty_def)
  have t': "containerTexts (plainMessage\<lparr>data_hasReactions := True\<rparr>)
      = (js ''bob'', js ''hi'', js ''10:00'')"
    by (simp add: containerTexts_def plainMessage_def textOrEmpty_def)
  have u: "codeUnits (js ''bob'')" "codeUnits (js ''hi'')" "codeUnits (js ''10:00'')"
    by (simp_all add: codeUnits_def js_def)
  have i: "identityOf (js ''bob'') (js ''hi'') (js ''10:00'') = Some (js ''Ym9iLWhpLTEwJTNBMDA'')"
    by (simp add: identityOf_def js_def
      is_unreserved_def is_alnum_def is_low_surrogate_def is_high_surrogate_def
      percent_encode_def utf8_def percent_def upper_hex_digit_def base64_digit_def)
  from C7_identity_derivation [OF t u] t' i
  have "generateMessageId plainMessage = Inr (js ''msg-'' @ js ''Ym9iLWhpLTEwJTNBMDA'')"
    and "generateMessageId (plainMessage\<lparr>data_hasReactions := True\<rparr>)
       = generateMessageId plainMessage"
    by simp_all
  with t u i show ?thesis by (simp add: js_def)
qed


section \<open>Attaching the reaction controls\<close>

lemma map_set_new:
  "\<not> map_has m k \<Longrightarrow> map_set k v m = m @ [(k, v)]"
  by (induction m) (auto simp: map_has_def map_set_def)

lemma map_get_appended:
  "\<not> map_has m k \<Longrightarrow> map_get (m @ [(k, v)]) k = Some v"
  by (simp add: map_has_def map_get_def map_add_def)

lemma addReactionButton_new:
  assumes "\<not> data_hasReactions messageContainer"
    and "generateMessageId messageContainer = Inr messageId"
    and "\<not> map_has (messageReactions st) messageId"
  shows "\<exists>container' st'. addReactionButton messageContainer st = (None, container', st')
      \<and> messageReactions st' = messageReactions st @ [(messageId, [])]
      \<and> data_messageId container' = Some messageId \<and> data_hasReactions container'"
proof -
  define st1 where "st1 = st\<lparr>messageReactions := messageReactions st @ [(messageId, [])]\<rparr>"
  obtain badges st2 where d: "updateReactionDisplay messageId st1 = (badges, st2)"
    by (cases "updateReactionDisplay messageId st1")
  from updateReactionDisplay_frame [of messageId st1] d
  have mr: "messageReactions st2 = messageReactions st1" by auto
  from assms d have "addReactionButton messageContainer st =
      (None,
       messageContainer\<lparr>children := children messageContainer
                             @ [ReactionButton messageId, ReactionsWrapper badges],
          data_messageId := Some messageId, data_hasReactions := True\<rparr>,
       st2)"
    by (simp add: addReactionButton_def map_set_new st1_def)
  with mr show ?thesis by (simp add: st1_def)
qed

subsection \<open>What keeps an entry of the table\<close>

lemma table_ws_send: "messageReactions (snd (ws_send frame st)) = messageReactions st"
  using ws_send_frame [of frame st] by auto

lemma table_sendMessage: "messageReactions (snd (sendMessage message st)) = messageReactions st"
  using sendMessage_frame [of message st] by auto

lemma table_processQueue: "messageReactions (processQueue st) = messageReactions st"
  using processQueue_frame [of st] by auto

lemma table_sendReactionUpdate:
  "messageReactions (snd (sendReactionUpdate messageId emoji userId st)) = messageReactions st"
  by (simp add: sendReactionUpdate_def Let_def queueMessage_def table_sendMessage
      table_processQueue)

lemma table_onopen: "messageReactions (onopen tok st) = messageReactions st"
proof -
  let ?st1 = "(console_log ''WebSocket connected'' st)\<lparr>reconnectAttempts := 0\<rparr>"
  obtain r st2 where s: "sendInitialState tok ?st1 = (r, st2)"
    by (cases "sendInitialState tok ?st1")
  have "messageReactions (snd (sendInitialState tok ?st1)) = messageReactions ?st1"
    by (simp add: sendInitialState_def table_ws_send)
  with s have "messageReactions st2 = messageReactions st" by (simp add: console_log_def)
  with s show ?thesis by (cases r) (simp_all add: onopen_def Let_def table_processQueue)
qed

lemma table_handleReconnection:
  "messageReactions (handleReconnection tok st) = messageReactions st"
  by (simp add: handleReconnection_def console_log_def)

lemma table_addReaction:
  "messageReactions (addReaction messageId emoji st) = messageReactions st
   \<or> messageReactions (addReaction messageId emoji st)
       = updateLocalReaction messageId emoji (actualUserName st) (messageReactions st)"
proof (cases "actualUserName st = []")
  case True
  then show ?thesis by (simp add: addReaction_def Let_def console_log_def)
next
  case False
  obtain r st' where sru: "sendReactionUpdate messageId emoji (actualUserName st) st = (r, st')"
    by (cases "sendReactionUpdate messageId emoji (actualUserName st) st")
  with table_sendReactionUpdate [of messageId emoji "actualUserName st" st]
  have t: "messageReactions st' = messageReactions st" by simp
  show ?thesis
  proof (cases r)
    case (Some err)
    with False sru t show ?thesis by (simp add: addReaction_def Let_def console_log_def)
  next
    case None
    let ?st1 = "st'\<lparr>messageReactions :=
        updateLocalReaction messageId emoji (actualUserName st) (messageReactions st')\<rparr>"
    obtain r2 st2 where u: "updateMessageReactions messageId ?st1 = (r2, st2)"
      by (cases "updateMessageReactions messageId ?st1")
    from updateMessageReactions_frame [of messageId ?st1] u
    have "messageReactions st2 = messageReactions ?st1" by auto
    with False sru None u t show ?thesis
      by (cases r2) (simp_all add: addReaction_def Let_def console_log_def
          saveToLocalStorage_def)
  qed
qed

lemma updateLocalReaction_keeps:
  assumes "distinct (map fst mr)" and "map_get mr k = Some r"
  shows "distinct (map fst (updateLocalReaction m e u mr))
       \<and> (\<exists>r'. map_get (updateLocalReaction m e u mr) k = Some r' \<and> (m \<noteq> k \<longrightarrow> r' = r))"
  using assms
  by (simp add: updateLocalReaction_def Let_def map_set_def map_get_def update_conv'
      distinct_update)

lemma map_set_fresh_keeps:
  assumes "distinct (map fst mr)" and "map_get mr k = Some r" and "\<not> map_has mr m"
  shows "distinct (map fst (map_set m v mr)) \<and> map_get (map_set m v mr) k = Some r"
  using assms
  by (auto simp: map_set_def map_get_def map_has_def update_conv' distinct_update)

lemma table_addReactionButton:
  "messageReactions (snd (snd (addReactionButton el st))) = messageReactions st
   \<or> (\<exists>m. \<not> map_has (messageReactions st) m
          \<and> messageReactions (snd (snd (addReactionButton el st)))
              = map_set m [] (messageReactions st))"
proof (cases "data_hasReactions el")
  case True
  then show ?thesis by (simp add: addReactionButton_def)
next
  case False
  show ?thesis
  proof (cases "generateMessageId el")
    case (Inl err)
    with False show ?thesis by (simp add: addReactionButton_def)
  next
    case (Inr m)
    let ?st1 = "if \<not> map_has (messageReactions st) m
                then st\<lparr>messageReactions := map_set m [] (messageReactions st)\<rparr> else st"
    obtain badges st2 where d: "updateReactionDisplay m ?st1 = (badges, st2)"
      by (cases "updateReactionDisplay m ?st1")
    from updateReactionDisplay_frame [of m ?st1] d
    have "messageReactions st2 = messageReactions ?st1" by auto
    moreover from False Inr d
    have "snd (snd (addReactionButton el st)) = st2"
      by (simp add: addReactionButton_def Let_def)
    ultimately show ?thesis by auto
  qed
qed

lemma addReactionButton_keeps:
  assumes "distinct (map fst (messageReactions st))" and "map_get (messageReactions st) k = Some r"
  shows "distinct (map fst (messageReactions (snd (snd (addReactionButton el st)))))
       \<and> map_get (messageReactions (snd (snd (addReactionButton el st)))) k = Some r"
  using table_addReactionButton [of el st] map_set_fresh_keeps [OF assms] assms by auto

lemma checkLoop_keeps:
  assumes "distinct (map fst (messageReactions st))" and "map_get (messageReactions st) k = Some r"
  shows "distinct (map fst (messageReactions (snd (checkLoop done els st))))
       \<and> map_get (messageReactions (snd (checkLoop done els st))) k = Some r"
  using assms
proof (induction els arbitrary: "done" st)
  case Nil
  then show ?case by simp
next
  case (Cons el els)
  show ?case
  proof (cases "data_hasReactions el")
    case True
    with Cons.IH [OF Cons.prems] show ?thesis by simp
  next
    case False
    obtain e el' st' where a: "addReactionButton el st = (e, el', st')"
      by (cases "addReactionButton el st") auto
    from addReactionButton_keeps [OF Cons.prems, of el] a
    have k: "distinct (map fst (messageReactions st'))" "map_get (messageReactions st') k = Some r"
      by simp_all
    show ?thesis
    proof (cases e)
      case None
      with False a Cons.IH [OF k] show ?thesis by simp
    next
      case (Some err)
      with False a k show ?thesis by simp
    qed
  qed
qed

lemma step_keeps:
  assumes "\<forall>d. ev \<noteq> WsMessage d"
    and "distinct (map fst (messageReactions st))" and "map_get (messageReactions st) k = Some r"
  shows "distinct (map fst (messageReactions (step tok ev st)))
       \<and> (\<exists>r'. map_get (messageReactions (step tok ev st)) k = Some r'
              \<and> ((\<forall>e. ev \<noteq> PickReaction k e) \<longrightarrow> r' = r))"
proof (cases ev)
  case WsOpen
  with assms(2,3) show ?thesis by (simp add: table_onopen)
next
  case WsClose
  with assms(2,3) show ?thesis by (simp add: onclose_def table_handleReconnection)
next
  case WsError
  with assms(2,3) show ?thesis
    by (simp add: onerror_def table_handleReconnection console_log_def)
next
  case (WsMessage d)
  with assms(1) show ?thesis by simp
next
  case ReconnectTimer
  with assms(2,3) show ?thesis by (simp add: connectWebSocket_def)
next
  case (PickReaction m e)
  from table_addReaction [of m e st] updateLocalReaction_keeps [OF assms(2,3), of m e "actualUserName st"]
    assms(2,3) PickReaction
  show ?thesis by auto
next
  case Scan
  with checkLoop_keeps [OF assms(2,3), of "[]" "document st"] show ?thesis
    by (simp add: checkAndAddReactionButtons_def)
qed

lemma run_keeps:
  assumes "\<forall>d. WsMessage d \<notin> set evs"
    and "distinct (map fst (messageReactions st))" and "map_get (messageReactions st) k = Some r"
  shows "distinct (map fst (messageReactions (run tok evs st)))
       \<and> (\<exists>r'. map_get (messageReactions (run tok evs st)) k = Some r'
              \<and> ((\<forall>e. PickReaction k e \<notin> set evs) \<longrightarrow> r' = r))"
  using assms
proof (induction evs arbitrary: st r)
  case Nil
  then show ?case by simp
next
  case (Cons ev evs)
  from Cons.prems(1) have ev: "\<forall>d. ev \<noteq> WsMessage d" and evs: "\<forall>d. WsMessage d \<notin> set evs"
    by auto
  from step_keeps [OF ev Cons.prems(2,3), of tok] obtain r1 where
    s: "distinct (map fst (messageReactions (step tok ev st)))"
       "map_get (messageReactions (step tok ev st)) k = Some r1"
       "(\<forall>e. ev \<noteq> PickReaction k e) \<longrightarrow> r1 = r"
    by blast
  from Cons.IH [OF evs s(1,2)] obtain r' where
    "distinct (map fst (messageReactions (run tok evs (step tok ev st))))"
    "map_get (messageReactions (run tok evs (step tok ev st))) k = Some r'"
    "(\<forall>e. PickReaction k e \<notin> set evs) \<longrightarrow> r' = r1"
    by blast
  with s(3) show ?case by auto
qed

subsection \<open>An entry of the table in the snapshot and in the broadcast\<close>

lemma snapshot_has_entry:
  assumes "distinct (map fst mr)" and "map_get mr messageId = Some r"
  shows "\<exists>props. snapshotObject mr = JObj props
           \<and> map_of props messageId = Some (reactionsObject r)"
proof -
  have "map_of (map (\<lambda>(m, r). (m, reactionsObject r)) (Object_fromEntries mr)) messageId
      = map_option reactionsObject (map_of (Object_fromEntries mr) messageId)"
    by (simp add: map_of_map)
  also have "\<dots> = map_option reactionsObject (map_of mr messageId)"
    by (simp only: map_of_Object_fromEntries [OF assms(1)])
  also have "\<dots> = Some (reactionsObject r)"
    using assms(2) by (simp add: map_get_def)
  finally show ?thesis by (simp add: snapshotObject_eq)
qed

lemma broadcast_has_entry:
  assumes "map_get mr messageId = Some r"
  shows "\<exists>entries. broadcastEntries mr = JArr entries
           \<and> JArr [JStr messageId, JObj []] \<in> set entries"
proof -
  from assms have "(messageId, r) \<in> set mr" by (simp add: map_get_def map_of_SomeD)
  then have "JArr [JStr messageId, JObj []]
      \<in> set (map (\<lambda>(messageId, reactions). JArr [JStr messageId, JObj []]) mr)"
    by force
  then show ?thesis by (simp add: broadcastEntries_def)
qed

lemma reactionsObject_empty: "reactionsObject [] = JObj []"
  by (simp add: reactionsObject_def Object_fromEntries_def)

text \<open>
  Claim C10, as amended.  Attaching the controls to a message element that is not yet marked
  and whose identity has no entry in the reaction state appends an entry for that identity
  with an empty emoji mapping.  From any manager holding the resulting table, the entry stays
  through every sequence of events other than a push of the relay (connection events,
  reconnection timers, scans of the page, picks of a reaction): it is still empty when no
  reaction was picked for that message, the snapshot has a property for the identity whose
  value is the object of its reactions (the empty object while the entry is empty), and the
  entries of the initial full-state message hold the pair for the identity.  Saving writes
  exactly that snapshot, and on an open connection the initial state is sent as exactly that
  frame.  The entry is dropped when the table is replaced as a whole: by a push of the relay,
  or by the load of a stored snapshot that \<open>setup\<close> performs right after its first scan.
\<close>

theorem C10_attach_inserts_empty_entry:
  assumes "\<not> data_hasReactions messageContainer"
    and "generateMessageId messageContainer = Inr messageId"
    and "\<not> map_has (messageReactions st) messageId"
  shows "\<exists>container' st'. addReactionButton messageContainer st = (None, container', st')
      \<and> messageReactions st' = messageReactions st @ [(messageId, [])]
      \<and> (\<forall>start tok evs.
           messageReactions start = messageReactions st'
           \<and> distinct (map fst (messageReactions st))
           \<and> (\<forall>d. WsMessage d \<notin> set evs) \<longrightarrow>
           (\<exists>r. map_get (messageReactions (run tok evs start)) messageId = Some r
              \<and> ((\<forall>e. PickReaction messageId e \<notin> set evs) \<longrightarrow> r = [])
              \<and> (\<exists>props. snapshotObject (messageReactions (run tok evs start)) = JObj props
                     \<and> map_of props messageId = Some (reactionsObject r))
              \<and> (\<exists>entries. broadcastEntries (messageReactions (run tok evs start)) = JArr entries
                     \<and> JArr [JStr messageId, JObj []] \<in> set entries))
           \<and> localStorage (saveToLocalStorage tok (run tok evs start)) (storageKey tok)
               = Some (JSON_stringify (snapshotObject (messageReactions (run tok evs start))))
           \<and> (ws (run tok evs start) = Some OPEN \<and> sendFaults (run tok evs start) = [] \<longrightarrow>
                sent (snd (sendInitialState tok (run tok evs start)))
                  = sent (run tok evs start)
                      @ [initialStateFrame tok (messageReactions (run tok evs start))]))"
proof -
  from addReactionButton_new [OF assms] obtain container' st' where
    a: "addReactionButton messageContainer st = (None, container', st')"
      "messageReactions st' = messageReactions st @ [(messageId, [])]"
    by blast
  have "(\<exists>r. map_get (messageReactions (run tok evs start)) messageId = Some r
              \<and> ((\<forall>e. PickReaction messageId e \<notin> set evs) \<longrightarrow> r = [])
              \<and> (\<exists>props. snapshotObject (messageReactions (run tok evs start)) = JObj props
                     \<and> map_of props messageId = Some (reactionsObject r))
              \<and> (\<exists>entries. broadcastEntries (messageReactions (run tok evs start)) = JArr entries
                     \<and> JArr [JStr messageId, JObj []] \<in> set entries))
           \<and> localStorage (saveToLocalStorage tok (run tok evs start)) (storageKey tok)
               = Some (JSON_stringify (snapshotObject (messageReactions (run tok evs start))))
           \<and> (ws (run tok evs start) = Some OPEN \<and> sendFaults (run tok evs start) = [] \<longrightarrow>
                sent (snd (sendInitialState tok (run tok evs start)))
                  = sent (run tok evs start)
                      @ [initialStateFrame tok (messageReactions (run tok evs start))])"
    if h: "messageReactions start = messageReactions st'
           \<and> distinct (map fst (messageReactions st))
           \<and> (\<forall>d. WsMessage d \<notin> set evs)"
    for start :: manager and tok :: jstring and evs :: "event list"
  proof -
    from assms(3) have fresh: "messageId \<notin> set (map fst (messageReactions st))"
      by (simp add: map_has_def map_of_eq_None_iff)
    from h a(2) fresh have d: "distinct (map fst (messageReactions start))" by simp
    from h a(2) assms(3) have g: "map_get (messageReactions start) messageId = Some []"
      by (simp add: map_get_appended)
    from h have n: "\<forall>d. WsMessage d \<notin> set evs" by simp
    from run_keeps [OF n d g, of tok] obtain r where
      r: "distinct (map fst (messageReactions (run tok evs start)))"
         "map_get (messageReactions (run tok evs start)) messageId = Some r"
         "(\<forall>e. PickReaction messageId e \<notin> set evs) \<longrightarrow> r = []"
      by blast
    from snapshot_has_entry [OF r(1,2)] broadcast_has_entry [OF r(2)] r(2,3)
    have "\<exists>r. map_get (messageReactions (run tok evs start)) messageId = Some r
              \<and> ((\<forall>e. PickReaction messageId e \<notin> set evs) \<longrightarrow> r = [])
              \<and> (\<exists>props. snapshotObject (messageReactions (run tok evs start)) = JObj props
                     \<and> map_of props messageId = Some (reactionsObject r))
              \<and> (\<exists>entries. broadcastEntries (messageReactions (run tok evs start)) = JArr entries
                     \<and> JArr [JStr messageId, JObj []] \<in> set entries)"
      by blast
    moreover have "localStorage (saveToLocalStorage tok (run tok evs start)) (storageKey tok)
        = Some (JSON_stringify (snapshotObject (messageReactions (run tok evs start))))"
      by (simp add: saveToLocalStorage_def)
    moreover have "ws (run tok evs start) = Some OPEN \<and> sendFaults (run tok evs start) = [] \<longrightarrow>
        sent (snd (sendInitialState tok (run tok evs start)))
          = sent (run tok evs start)
              @ [initialStateFrame tok (messageReactions (run tok evs start))]"
      by (simp add: sendInitialState_def ws_send_def initialStateFrame_def)
    ultimately show ?thesis by blast
  qed
  with a show ?thesis by blast
qed

theorem C10_attach_inserts_empty_entry_witness:
  "\<not> data_hasReactions plainMessage
   \<and> generateMessageId plainMessage = Inr (js ''msg-Ym9iLWhpLTEwJTNBMDA'')
   \<and> \<not> map_has (messageReactions freshPage) (js ''msg-Ym9iLWhpLTEwJTNBMDA'')
   \<and> distinct (map fst (messageReactions freshPage))
   \<and> (\<forall>d. WsMessage d \<notin> set [WsOpen, Scan, PickReaction (js ''msg-0'') thumbsUp, WsClose,
                                ReconnectTimer])
   \<and> (\<forall>e. PickReaction (js ''msg-Ym9iLWhpLTEwJTNBMDA'') e
            \<notin> set [WsOpen, Scan, PickReaction (js ''msg-0'') thumbsUp, WsClose, ReconnectTimer])
   \<and> (\<exists>container' st'. addReactionButton plainMessage freshPage = (None, container', st')
         \<and> messageReactions st' = [(js ''msg-Ym9iLWhpLTEwJTNBMDA'', [])]
         \<and> messageReactions (st'\<lparr>document := [container']\<rparr>) = messageReactions st'
         \<and> map_get (messageReactions (run (js ''default-session'')
              [WsOpen, Scan, PickReaction (js ''msg-0'') thumbsUp, WsClose, ReconnectTimer]
              (st'\<lparr>document := [container']\<rparr>))) (js ''msg-Ym9iLWhpLTEwJTNBMDA'') = Some []
         \<and> (\<exists>props. snapshotObject (messageReactions (run (js ''default-session'')
              [WsOpen, Scan, PickReaction (js ''msg-0'') thumbsUp, WsClose, ReconnectTimer]
              (st'\<lparr>document := [container']\<rparr>))) = JObj props
               \<and> map_of props (js ''msg-Ym9iLWhpLTEwJTNBMDA'') = Some (JObj []))
         \<and> (\<exists>entries. broadcastEntries (messageReactions (run (js ''default-session'')
              [WsOpen, Scan, PickReaction (js ''msg-0'') thumbsUp, WsClose, ReconnectTimer]
              (st'\<lparr>document := [container']\<rparr>))) = JArr entries
               \<and> JArr [JStr (js ''msg-Ym9iLWhpLTEwJTNBMDA''), JObj []] \<in> set entries))"
proof -
  let ?m = "js ''msg-Ym9iLWhpLTEwJTNBMDA''"
  let ?evs = "[WsOpen, Scan, PickReaction (js ''msg-0'') thumbsUp, WsClose, ReconnectTimer]"
  have h1: "\<not> data_hasReactions plainMessage" by (simp add: plainMessage_def)
  have h2: "generateMessageId plainMessage = Inr ?m" by (rule plainMessage_identity)
  have h3: "\<not> map_has (messageReactions freshPage) ?m"
    by (simp add: freshPage_def newManager_def map_has_def)
  have h4: "distinct (map fst (messageReactions freshPage))"
    by (simp add: freshPage_def newManager_def)
  have h5: "\<forall>d. WsMessage d \<notin> set ?evs" by simp
  have h6: "\<forall>e. PickReaction ?m e \<notin> set ?evs" by (simp add: js_def)
  have e: "messageReactions freshPage = []" by (simp add: freshPage_def newManager_def)
  from C10_attach_inserts_empty_entry [OF h1 h2 h3] obtain container' st' where
    a: "addReactionButton plainMessage freshPage = (None, container', st')"
       "messageReactions st' = messageReactions freshPage @ [(?m, [])]"
    and later: "\<And>start tok evs.
           messageReactions start = messageReactions st'
           \<and> distinct (map fst (messageReactions freshPage))
           \<and> (\<forall>d. WsMessage d \<notin> set evs) \<Longrightarrow>
           (\<exists>r. map_get (messageReactions (run tok evs start)) ?m = Some r
              \<and> ((\<forall>e. PickReaction ?m e \<notin> set evs) \<longrightarrow> r = [])
              \<and> (\<exists>props. snapshotObject (messageReactions (run tok evs start)) = JObj props
                     \<and> map_of props ?m = Some (reactionsObject r))
              \<and> (\<exists>entries. broadcastEntries (messageReactions (run tok evs start)) = JArr entries
                     \<and> JArr [JStr ?m, JObj []] \<in> set entries))"
    by blast
  have s: "messageReactions (st'\<lparr>document := [container']\<rparr>) = messageReactions st'" by simp
  from later [of "st'\<lparr>document := [container']\<rparr>" ?evs "js ''default-session''"] s h4 h5
  obtain r where
    r: "map_get (messageReactions (run (js ''default-session'') ?evs
          (st'\<lparr>document := [container']\<rparr>))) ?m = Some r"
       "(\<forall>e. PickReaction ?m e \<notin> set ?evs) \<longrightarrow> r = []"
       "\<exists>props. snapshotObject (messageReactions (run (js ''default-session'') ?evs
            (st'\<lparr>document := [container']\<rparr>))) = JObj props
          \<and> map_of props ?m = Some (reactionsObject r)"
       "\<exists>entries. broadcastEntries (messageReactions (run (js ''default-session'') ?evs
            (st'\<lparr>document := [container']\<rparr>))) = JArr entries
          \<and> JArr [JStr ?m, JObj []] \<in> set entries"
    by blast
  from r(2) h6 have "r = []" by blast
  with r(1,3,4) have
    "map_get (messageReactions (run (js ''default-session'') ?evs
          (st'\<lparr>document := [container']\<rparr>))) ?m = Some []"
    "\<exists>props. snapshotObject (messageReactions (run (js ''default-session'') ?evs
            (st'\<lparr>document := [container']\<rparr>))) = JObj props
          \<and> map_of props ?m = Some (JObj [])"
    "\<exists>entries. broadcastEntries (messageReactions (run (js ''default-session'') ?evs
            (st'\<lparr>document := [container']\<rparr>))) = JArr entries
          \<and> JArr [JStr ?m, JObj []] \<in> set entries"
    by (simp_all add: reactionsObject_empty)
  moreover from a(2) e have "messageReactions st' = [(?m, [])]" by simp
  ultimately show ?thesis using h1 h2 h3 h4 h5 h6 a(1) s by blast
qed

text \<open>
  The claim as it was worded fails in the order in which \<open>setup\<close> itself works: the first
  scan attaches the controls and inserts the empty entry, then the load of a snapshot stored
  by an earlier visit replaces the table.  The entry of the message is in no later snapshot
  or broadcast, and the element, now marked, is not attached again by a later scan.
\<close>

theorem C10_counterexample:
  "fst (checkAndAddReactionButtons
          (console_log ''Initializing message reactions module'' storedElsewhere)) = None
   \<and> messageReactions (snd (checkAndAddReactionButtons
          (console_log ''Initializing message reactions module'' storedElsewhere)))
       = [(js ''msg-Ym9iLWhpLTEwJTNBMDA'', [])]
   \<and> fst (setup_manager storedElsewhere) = None
   \<and> messageReactions (snd (setup_manager storedElsewhere))
       = [(js ''msg-0'', [(thumbsUp, [js ''bob''])])]
   \<and> map_get (messageReactions (snd (setup_manager storedElsewhere)))
        (js ''msg-Ym9iLWhpLTEwJTNBMDA'') = None
   \<and> snapshotObject (messageReactions (snd (setup_manager storedElsewhere)))
       = JObj [(js ''msg-0'', JObj [(thumbsUp, JArr [JStr (js ''bob'')])])]
   \<and> broadcastEntries (messageReactions (snd (setup_manager storedElsewhere)))
       = JArr [JArr [JStr (js ''msg-0''), JObj []]]
   \<and> list_all data_hasReactions (document (snd (setup_manager storedElsewhere)))
   \<and> messageReactions (step (js ''default-session'') Scan (snd (setup_manager storedElsewhere)))
       = [(js ''msg-0'', [(thumbsUp, [js ''bob''])])]"
proof -
  let ?m = "js ''msg-Ym9iLWhpLTEwJTNBMDA''"
  let ?mr = "[(js ''msg-0'', [(thumbsUp, [js ''bob''])])]"
  let ?st0 = "console_log ''Initializing message reactions module'' storedElsewhere"
  let ?el = "plainMessage\<lparr>children := children plainMessage
                 @ [ReactionButton ?m, ReactionsWrapper []],
               data_messageId := Some ?m, data_hasReactions := True\<rparr>"
  define st1 where "st1 = snd (checkAndAddReactionButtons ?st0)"
  have h1: "\<not> data_hasReactions plainMessage" by (simp add: plainMessage_def)
  have user: "actualUserName ?st0 \<noteq> []"
    by (simp add: storedElsewhere_def newManager_def console_log_def js_def)
  have scan: "fst (checkAndAddReactionButtons ?st0) = None"
    "messageReactions st1 = [(?m, [])]" "document st1 = [?el]"
    "localStorage st1 = localStorage storedElsewhere" "sessionTokenParam st1 = None"
    unfolding st1_def
    by (simp_all add: checkAndAddReactionButtons_def addReactionButton_def h1
        plainMessage_identity map_has_def map_set_def updateReactionDisplay_def map_get_def
        storedElsewhere_def newManager_def console_log_def js_def)
  then have s: "setup_manager storedElsewhere
      = (None, loadReactionsFromStorage (js ''default-session'')
                 (connectWebSocket (js ''default-session'') st1))"
    by (cases "checkAndAddReactionButtons ?st0")
       (simp add: setup_manager_def st1_def initializeReactions_def getSessionToken_def)
  let ?st2 = "connectWebSocket (js ''default-session'') st1"
  have stored: "localStorage ?st2 (storageKey (js ''default-session''))
      = Some (JSON_stringify (snapshotObject ?mr))"
    using scan(4) by (simp add: connectWebSocket_def storedElsewhere_def)
  have order: "inEnumerationOrder ?mr = ?mr"
    by (simp add: inEnumerationOrder_def Object_fromEntries_def prop_set_def array_index_def
        is_digit_def js_def thumbsUp_def)
  let ?st3 = "?st2\<lparr>messageReactions := ?mr\<rparr>"
  have other: "\<not> map_has ?mr ?m" by (simp add: map_has_def js_def)
  have redraw: "updateAllReactionDisplays ?st3 = (None, ?st3\<lparr>document := [?el]\<rparr>)"
    using scan(3) other
    by (simp add: updateAllReactionDisplays_def connectWebSocket_def elementMessageId_def
        js_def)
  from load_stored_snapshot [OF stored] order redraw
  have l: "loadReactionsFromStorage (js ''default-session'') ?st2 = ?st3\<lparr>document := [?el]\<rparr>"
    by (simp add: redrawAfterLoad_def)
  have after: "snd (setup_manager storedElsewhere) = ?st3\<lparr>document := [?el]\<rparr>"
    "fst (setup_manager storedElsewhere) = None"
    using s l by simp_all
  have snap: "snapshotObject ?mr = JObj [(js ''msg-0'', JObj [(thumbsUp, JArr [JStr (js ''bob'')])])]"
    by (simp add: snapshotObject_def Object_fromEntries_def prop_set_def array_index_def
        is_digit_def js_def thumbsUp_def)
  have rescan: "messageReactions (step (js ''default-session'') Scan (?st3\<lparr>document := [?el]\<rparr>)) = ?mr"
    by (simp add: checkAndAddReactionButtons_def)
  show ?thesis
    unfolding after
    using scan(1,2) snap rescan
    by (simp add: st1_def [symmetric] map_get_def broadcastEntries_def js_def)
qed

end
